theory Spec2Isabelle
  imports Complex_Main "HOL-Library.Word"
begin

section \<open>The imgStore library: data model\<close>

text \<open>
  A shallow embedding of the imgStore core library (\<^verbatim>\<open>imgStore.h\<close>, \<^verbatim>\<open>tools.c\<close>,
  \<^verbatim>\<open>dedup.c\<close>, \<^verbatim>\<open>image_content.c\<close>, \<^verbatim>\<open>imgst_create.c\<close>, \<^verbatim>\<open>imgst_insert.c\<close>,
  \<^verbatim>\<open>imgst_read.c\<close>, \<^verbatim>\<open>imgst_delete.c\<close>).

  Conventions of the embedding:
  \<^item> a C function that returns an error code and mutates \<^verbatim>\<open>imgst_file* imgstfile\<close> becomes
    a function from the handle to the pair of the code and the handle as the C function
    leaves it, also on the error paths;
  \<^item> pointer arguments are non-NULL (the \<^verbatim>\<open>M_REQUIRE_NON_NULL\<close> checks pass) and
    \<^verbatim>\<open>calloc\<close> succeeds;
  \<^item> a C string is the list of its characters before the terminating NUL, and the
    field \<^verbatim>\<open>img_id\<close> of a slot is the list of the characters of its 128 bytes before
    the first NUL (all 128 when the array holds no NUL);
  \<^item> a \<^verbatim>\<open>double\<close> is an IEEE 754 binary64 number: a real that the format represents,
    an infinity or a NaN, and a division rounds to the nearest such number, ties to
    the even significand;
  \<^item> \<^verbatim>\<open>uint16_t\<close>, \<^verbatim>\<open>uint32_t\<close>, \<^verbatim>\<open>uint64_t\<close> are words, loop counters and
    \<^verbatim>\<open>size_t\<close> indices are naturals;
  \<^item> the file behind \<^verbatim>\<open>FILE*\<close> is a byte list with a position and the mode it was
    opened in; a stream operation fails exactly where the C library must fail (a read
    past the end, a transfer of zero bytes, a write on a stream opened for reading, a
    read on a stream opened for writing, a seek to a negative offset);
  \<^item> the byte layout of the two structs (compiler and ABI dependent), the SHA-256
    primitive and the libvips codec are parameters.
\<close>

type_synonym byte = "8 word"

subsection \<open>Constants of imgStore.h\<close>

definition CAT_TXT :: string where "CAT_TXT = ''EPFL ImgStore binary''"
definition MAX_IMGST_NAME :: nat where "MAX_IMGST_NAME = 31"
definition MAX_IMG_ID :: nat where "MAX_IMG_ID = 127"
definition EMPTY :: "16 word" where "EMPTY = 0"
definition NON_EMPTY :: "16 word" where "NON_EMPTY = 1"
definition RES_THUMB :: int where "RES_THUMB = 0"
definition RES_SMALL :: int where "RES_SMALL = 1"
definition RES_ORIG :: int where "RES_ORIG = 2"
definition INIT_NB_FILES :: "32 word" where "INIT_NB_FILES = 0"
definition INIT_VER :: "32 word" where "INIT_VER = 0"
definition INIT_OFFSET :: "64 word" where "INIT_OFFSET = 0"
definition SHA256_DIGEST_LENGTH :: nat where "SHA256_DIGEST_LENGTH = 32"

subsection \<open>Error codes\<close>

text \<open>
  The codes of \<^verbatim>\<open>error.h\<close> that the sources return. \<open>PROCESS_ABORTED\<close> is not a code of
  the program: it is the outcome of a call that does not return, because it hands
  \<^verbatim>\<open>free\<close> an address that no allocation returned and the C library stops the process.
\<close>

datatype error =
    ERR_NONE
  | ERR_IO
  | ERR_OUT_OF_MEMORY
  | ERR_NOT_ENOUGH_ARGUMENTS
  | ERR_INVALID_COMMAND
  | ERR_INVALID_ARGUMENT
  | ERR_MAX_FILES
  | ERR_RESOLUTIONS
  | ERR_INVALID_IMGID
  | ERR_FULL_IMGSTORE
  | ERR_FILE_NOT_FOUND
  | ERR_DUPLICATE_ID
  | ERR_IMGLIB
  | PROCESS_ABORTED

subsection \<open>Structs\<close>

text \<open>An array indexed by the resolution codes 0, 1, 2 (\<^verbatim>\<open>x[NB_RES]\<close>).\<close>

datatype 'a res_array = ResArray 'a 'a 'a

fun res_get :: "'a res_array \<Rightarrow> int \<Rightarrow> 'a" where
  "res_get (ResArray a b c) r = (if r = 0 then a else if r = 1 then b else c)"

fun res_set :: "'a res_array \<Rightarrow> int \<Rightarrow> 'a \<Rightarrow> 'a res_array" where
  "res_set (ResArray a b c) r v =
     (if r = 0 then ResArray v b c else if r = 1 then ResArray a v c else ResArray a b v)"

record imgst_header =
  imgst_name :: string
  imgst_version :: "32 word"
  num_files :: "32 word"
  max_files :: "32 word"
  res_resized :: "16 word list"
  unused_32 :: "32 word"
  unused_64 :: "64 word"

record img_metadata =
  img_id :: string
  SHA :: "byte list"
  res_orig :: "32 word \<times> 32 word"
  size_arr :: "32 word res_array"
  offset :: "64 word res_array"
  is_valid :: "16 word"
  unused_16 :: "16 word"

subsection \<open>The image codec\<close>

text \<open>
  A \<^verbatim>\<open>VipsImage\<close> as far as the library looks at it: its two dimensions, and the
  pixels as an opaque payload.
\<close>

record VipsImage =
  Xsize :: int
  Ysize :: int
  pixels :: "byte list"

text \<open>
  The two dimensions are \<^verbatim>\<open>int\<close>s of the C code, so they lie between \<open>- 2 ^ 31\<close> and
  \<open>2 ^ 31\<close>, where the conversion to \<^verbatim>\<open>double\<close> is exact.
\<close>

subsection \<open>Division in double precision\<close>

text \<open>The values of the type \<^verbatim>\<open>double\<close>.\<close>

datatype double = Finite real | PlusInf | MinusInf | NaN

text \<open>The number of binary digits of \<open>n\<close>.\<close>

fun bit_length :: "nat \<Rightarrow> nat" where
  "bit_length n = (if n = 0 then 0 else Suc (bit_length (n div 2)))"

declare bit_length.simps [simp del]

text \<open>
  The binary exponent of the quotient of two positive numbers: the \<open>e\<close> with
  \<open>2 ^ e \<le> a / b < 2 ^ (e + 1)\<close>.
\<close>

definition quot_exponent :: "nat \<Rightarrow> nat \<Rightarrow> int" where
  "quot_exponent a b =
     (let d = int (bit_length a) - int (bit_length b)
      in if b * 2 ^ nat d \<le> a * 2 ^ nat (- d) then d else d - 1)"

text \<open>The integer nearest to \<open>p / q\<close>, the even one of two that are equally near.\<close>

definition round_half_even :: "nat \<Rightarrow> nat \<Rightarrow> nat" where
  "round_half_even p q =
     (let n = p div q; r = p mod q
      in if 2 * r < q then n else if q < 2 * r then n + 1 else if even n then n else n + 1)"

text \<open>
  The double nearest to \<open>a / b\<close> for positive \<open>a\<close> and \<open>b\<close>: the quotient scaled to a
  significand of 53 bits, rounded, and scaled back. Quotients of two \<^verbatim>\<open>int\<close>s neither
  overflow nor fall below the normal range of the format.
\<close>

definition nearest_double :: "nat \<Rightarrow> nat \<Rightarrow> real" where
  "nearest_double a b =
     (let e = quot_exponent a b;
          n = round_half_even (a * 2 ^ nat (52 - e)) (b * 2 ^ nat (e - 52))
      in real n * 2 powi (e - 52))"

text \<open>\<^verbatim>\<open>(double) a / (double) b\<close> for two \<^verbatim>\<open>int\<close>s.\<close>

definition double_div :: "int \<Rightarrow> int \<Rightarrow> double" where
  "double_div a b =
     (if b = 0 then (if a = 0 then NaN else if 0 < a then PlusInf else MinusInf)
      else if a = 0 then Finite 0
      else Finite ((if (a < 0) = (b < 0) then 1 else - 1)
                     * nearest_double (nat \<bar>a\<bar>) (nat \<bar>b\<bar>)))"

text \<open>\<^verbatim>\<open>x > y\<close> on doubles: false as soon as one of them is a NaN.\<close>

fun double_gt :: "double \<Rightarrow> double \<Rightarrow> bool" where
  "double_gt NaN y = False"
| "double_gt x NaN = False"
| "double_gt (Finite x) (Finite y) = (y < x)"
| "double_gt (Finite x) PlusInf = False"
| "double_gt (Finite x) MinusInf = True"
| "double_gt PlusInf PlusInf = False"
| "double_gt PlusInf y = True"
| "double_gt MinusInf y = False"

text \<open>\<^verbatim>\<open>shrink_value\<close> of image\_content.c.\<close>

definition shrink_value :: "VipsImage \<Rightarrow> int \<Rightarrow> int \<Rightarrow> double" where
  "shrink_value img max_resized_width max_resized_height =
     (let h_shrink = double_div max_resized_width (Xsize img);
          v_shrink = double_div max_resized_height (Ysize img)
      in if double_gt h_shrink v_shrink then v_shrink else h_shrink)"

subsection \<open>Streams\<close>

text \<open>
  The three modes the library opens a file in: \<^verbatim>\<open>"rb"\<close>, \<^verbatim>\<open>"rb+"\<close> (do\_open) and
  \<^verbatim>\<open>"wb"\<close> (do\_create).
\<close>

datatype open_mode = RB | RB_PLUS | WB

record stream =
  contents :: "byte list"
  pos :: nat
  mode :: open_mode

definition rewind :: "stream \<Rightarrow> stream" where
  "rewind f = f\<lparr>pos := 0\<rparr>"

text \<open>\<^verbatim>\<open>fseek(f, off, SEEK_SET)\<close>: the offset is a \<^verbatim>\<open>long\<close>; a negative one is refused.\<close>

definition fseek_set :: "stream \<Rightarrow> int \<Rightarrow> bool \<times> stream" where
  "fseek_set f off = (if off < 0 then (False, f) else (True, f\<lparr>pos := nat off\<rparr>))"

text \<open>\<^verbatim>\<open>fseek(f, 0, SEEK_END)\<close>.\<close>

definition fseek_end :: "stream \<Rightarrow> bool \<times> stream" where
  "fseek_end f = (True, f\<lparr>pos := length (contents f)\<rparr>)"

definition ftell :: "stream \<Rightarrow> int" where
  "ftell f = int (pos f)"

text \<open>
  Writing \<open>d\<close> at position \<open>p\<close>: the bytes under it are replaced, the file grows when the
  write passes its end, and a gap between the end and \<open>p\<close> reads as zeros.
\<close>

definition overwrite :: "byte list \<Rightarrow> nat \<Rightarrow> byte list \<Rightarrow> byte list" where
  "overwrite xs p d = take p xs @ replicate (p - length xs) 0 @ d @ drop (p + length d) xs"

text \<open>
  \<^verbatim>\<open>fwrite(buf, size, 1, f)\<close> with \<open>size = length buf\<close>; the result is the number of
  items written, 0 or 1.
\<close>

definition fwrite :: "byte list \<Rightarrow> stream \<Rightarrow> nat \<times> stream" where
  "fwrite buf f =
     (if mode f = RB \<or> buf = [] then (0, f)
      else (1, f\<lparr>contents := overwrite (contents f) (pos f) buf, pos := pos f + length buf\<rparr>))"

text \<open>
  \<^verbatim>\<open>fread(buf, size, nmemb, f)\<close>: the number of complete items read, their bytes, and
  the stream after the read.
\<close>

definition fread :: "nat \<Rightarrow> nat \<Rightarrow> stream \<Rightarrow> nat \<times> byte list \<times> stream" where
  "fread sz nmemb f =
     (if mode f = WB \<or> sz = 0 \<or> nmemb = 0 then (0, [], f)
      else let avail = length (contents f) - pos f;
               k = min nmemb (avail div sz)
           in (k, take (k * sz) (drop (pos f) (contents f)),
               f\<lparr>pos := pos f + min (nmemb * sz) avail\<rparr>))"

subsection \<open>What the platform provides\<close>

text \<open>
  The size and byte layout of the two structs as \<^verbatim>\<open>fwrite\<close> and \<^verbatim>\<open>fread\<close> see them,
  OpenSSL's \<^verbatim>\<open>SHA256\<close>, and the three libvips calls. \<^verbatim>\<open>vips_resize\<close> and the two JPEG
  calls return \<open>None\<close> where the C call reports a failure.
\<close>

record env =
  sizeof_imgst_header :: nat
  sizeof_img_metadata :: nat
  enc_header :: "imgst_header \<Rightarrow> byte list"
  enc_metadata :: "img_metadata \<Rightarrow> byte list"
  dec_header :: "byte list \<Rightarrow> imgst_header"
  dec_metadata :: "byte list \<Rightarrow> img_metadata"
  SHA256 :: "byte list \<Rightarrow> byte list"
  vips_jpegload_buffer :: "byte list \<Rightarrow> VipsImage option"
  vips_resize :: "VipsImage \<Rightarrow> double \<Rightarrow> VipsImage option"
  vips_jpegsave_buffer :: "VipsImage \<Rightarrow> byte list option"

record imgst_file =
  filep :: stream
  header :: imgst_header
  metadata :: "img_metadata list"

subsection \<open>tools.c\<close>

text \<open>
  Of \<^verbatim>\<open>strcmp\<close> and \<^verbatim>\<open>strncmp\<close> the code uses only whether the result is 0.
\<close>

definition strcmp :: "string \<Rightarrow> string \<Rightarrow> int" where
  "strcmp a b = (if a = b then 0 else 1)"

definition strncmp :: "string \<Rightarrow> string \<Rightarrow> nat \<Rightarrow> int" where
  "strncmp a b n = (if take n a = take n b then 0 else 1)"

definition validMetadataIndex :: "nat \<Rightarrow> imgst_file \<Rightarrow> error" where
  "validMetadataIndex idx s =
     (if unat (max_files (header s)) \<le> idx then ERR_INVALID_ARGUMENT
      else if is_valid (metadata s ! idx) = EMPTY then ERR_INVALID_ARGUMENT
      else ERR_NONE)"

function findMetadataIndex_loop :: "img_metadata list \<Rightarrow> nat \<Rightarrow> string \<Rightarrow> nat \<Rightarrow> nat" where
  "findMetadataIndex_loop md maxf iid i =
     (if i < maxf \<and> (strcmp (img_id (md ! i)) iid \<noteq> 0 \<or> is_valid (md ! i) = EMPTY)
      then findMetadataIndex_loop md maxf iid (Suc i)
      else i)"
  by pat_completeness auto
termination
  by (relation "measure (\<lambda>(md, maxf, iid, i). maxf - i)") auto

declare findMetadataIndex_loop.simps [simp del]

text \<open>The second component is \<^verbatim>\<open>*idx\<close>; the caller initialised it to 0.\<close>

definition findMetadataIndex :: "string \<Rightarrow> imgst_file \<Rightarrow> error \<times> nat" where
  "findMetadataIndex iid s =
     (let i = findMetadataIndex_loop (metadata s) (unat (max_files (header s))) iid 0
      in if validMetadataIndex i s \<noteq> ERR_NONE then (ERR_FILE_NOT_FOUND, 0) else (ERR_NONE, i))"

definition updateMetadata :: "env \<Rightarrow> nat \<Rightarrow> imgst_file \<Rightarrow> error \<times> imgst_file" where
  "updateMetadata E idx s =
     (if unat (max_files (header s)) \<le> idx then (ERR_FILE_NOT_FOUND, s)
      else case fseek_set (rewind (filep s))
                  (int (idx * sizeof_img_metadata E + sizeof_imgst_header E)) of
        (ok, f) \<Rightarrow>
          if \<not> ok then (ERR_IO, s\<lparr>filep := f\<rparr>)
          else case fwrite (enc_metadata E (metadata s ! idx)) f of
            (n, f') \<Rightarrow> (if n \<noteq> 1 then ERR_IO else ERR_NONE, s\<lparr>filep := f'\<rparr>))"

definition updateHeader :: "env \<Rightarrow> imgst_file \<Rightarrow> error \<times> imgst_file" where
  "updateHeader E s =
     (case fwrite (enc_header E (header s)) (rewind (filep s)) of
        (n, f) \<Rightarrow> (if n \<noteq> 1 then ERR_IO else ERR_NONE, s\<lparr>filep := f\<rparr>))"

function shaCompare_loop :: "byte list \<Rightarrow> byte list \<Rightarrow> nat \<Rightarrow> int \<Rightarrow> int" where
  "shaCompare_loop sha1 sha2 i compareValue =
     (if i < SHA256_DIGEST_LENGTH \<and> compareValue = 0
      then shaCompare_loop sha1 sha2 (Suc i)
             (if sha1 ! i > sha2 ! i then 1
              else if sha1 ! i < sha2 ! i then - 1
              else compareValue)
      else compareValue)"
  by pat_completeness auto
termination
  by (relation "measure (\<lambda>(sha1, sha2, i, c). SHA256_DIGEST_LENGTH - i)") auto

declare shaCompare_loop.simps [simp del]

definition shaCompare :: "byte list \<Rightarrow> byte list \<Rightarrow> int" where
  "shaCompare sha1 sha2 = shaCompare_loop sha1 sha2 0 0"

text \<open>
  \<^verbatim>\<open>do_open\<close>. The first argument is what \<^verbatim>\<open>fopen\<close> finds at the path: the bytes of
  the file, or \<open>None\<close> when it cannot be opened. The handle is \<open>None\<close> when the function
  leaves no open store (it returned before opening, or after \<^verbatim>\<open>do_close\<close>).
\<close>

definition do_open :: "env \<Rightarrow> byte list option \<Rightarrow> string \<Rightarrow> error \<times> imgst_file option" where
  "do_open E on_disk open_mode =
     (if \<not> (strcmp open_mode ''rb'' = 0 \<or> strcmp open_mode ''rb+'' = 0)
      then (ERR_INVALID_ARGUMENT, None)
      else case on_disk of
        None \<Rightarrow> (ERR_IO, None)
      | Some bs \<Rightarrow>
          let f = \<lparr>contents = bs, pos = 0,
                   mode = (if strcmp open_mode ''rb'' = 0 then RB else RB_PLUS)\<rparr>
          in case fread (sizeof_imgst_header E) 1 f of
            (nb_header, hbytes, f1) \<Rightarrow>
              if nb_header \<noteq> 1 then (ERR_IO, None)
              else let h = dec_header E hbytes
                   in case fread (sizeof_img_metadata E) (unat (max_files h)) f1 of
                     (nb_metadata, mbytes, f2) \<Rightarrow>
                       if nb_header + nb_metadata \<noteq> unat (max_files h + 1)
                       then (ERR_IO, None)
                       else (ERR_NONE,
                             Some \<lparr>filep = f2, header = h,
                                   metadata =
                                     map (\<lambda>k. dec_metadata E
                                            (take (sizeof_img_metadata E)
                                               (drop (k * sizeof_img_metadata E) mbytes)))
                                         [0 ..< unat (max_files h)]\<rparr>))"

subsection \<open>dedup.c\<close>

text \<open>
  The while loop of \<^verbatim>\<open>do_name_and_content_dedup\<close>. It returns in the middle of the array
  on a duplicate name, with whatever it has copied so far.
\<close>

function dedup_loop ::
  "img_metadata list \<Rightarrow> nat \<Rightarrow> nat \<Rightarrow> nat \<Rightarrow> int \<Rightarrow> error \<times> img_metadata list \<times> int" where
  "dedup_loop md maxf index i has_content_clone =
     (if i < maxf then
        (if i \<noteq> index \<and> is_valid (md ! i) \<noteq> 0 then
           (if strncmp (img_id (md ! index)) (img_id (md ! i)) MAX_IMG_ID = 0
            then (ERR_DUPLICATE_ID, md, has_content_clone)
            else if shaCompare (SHA (md ! index)) (SHA (md ! i)) = 0
            then dedup_loop
                   (md[index := (md ! index)\<lparr>offset := offset (md ! i),
                                              size_arr := size_arr (md ! i)\<rparr>])
                   maxf index (Suc i) 1
            else dedup_loop md maxf index (Suc i) has_content_clone)
         else dedup_loop md maxf index (Suc i) has_content_clone)
      else (ERR_NONE, md, has_content_clone))"
  by pat_completeness auto
termination
  by (relation "measure (\<lambda>(md, maxf, index, i, c). maxf - i)") auto

declare dedup_loop.simps [simp del]

definition do_name_and_content_dedup :: "imgst_file \<Rightarrow> nat \<Rightarrow> error \<times> imgst_file" where
  "do_name_and_content_dedup s index =
     (if unat (max_files (header s)) \<le> index then (ERR_INVALID_ARGUMENT, s)
      else case dedup_loop (metadata s) (unat (max_files (header s))) index 0 0 of
        (e, md, has_content_clone) \<Rightarrow>
          if e \<noteq> ERR_NONE then (e, s\<lparr>metadata := md\<rparr>)
          else if has_content_clone = 0
          then (ERR_NONE,
                s\<lparr>metadata := md[index := (md ! index)
                                   \<lparr>offset := res_set (offset (md ! index)) RES_ORIG 0\<rparr>]\<rparr>)
          else (ERR_NONE, s\<lparr>metadata := md\<rparr>))"

subsection \<open>image\_content.c\<close>

definition read_vips_from_file ::
  "env \<Rightarrow> nat \<Rightarrow> stream \<Rightarrow> error \<times> VipsImage option \<times> stream" where
  "read_vips_from_file E sz f =
     (case fread sz 1 f of
        (n, buffer, f') \<Rightarrow>
          if n \<noteq> 1 then (ERR_IO, None, f')
          else case vips_jpegload_buffer E buffer of
            None \<Rightarrow> (ERR_IMGLIB, None, f')
          | Some v \<Rightarrow> (ERR_NONE, Some v, f'))"

text \<open>
  The image is \<open>None\<close> when \<^verbatim>\<open>vips_resize\<close>, whose result the caller does not check, left
  the pointer NULL; saving it then fails. The second component is \<^verbatim>\<open>*size\<close>. On a
  failed save and on a failed write the C code runs \<^verbatim>\<open>FREE_DEREF(buffer)\<close> with
  \<^verbatim>\<open>buffer\<close> the \<^verbatim>\<open>void**\<close> parameter, the address of a local variable of the caller:
  \<^verbatim>\<open>free\<close> is given an address that no allocation returned, and the process is
  stopped before either \<^verbatim>\<open>ERR_IMGLIB\<close> or \<^verbatim>\<open>ERR_IO\<close> is returned.
\<close>

definition write_vips_to_file ::
  "env \<Rightarrow> VipsImage option \<Rightarrow> stream \<Rightarrow> error \<times> nat \<times> stream" where
  "write_vips_to_file E img f =
     (case (case img of None \<Rightarrow> None | Some v \<Rightarrow> vips_jpegsave_buffer E v) of
        None \<Rightarrow> (PROCESS_ABORTED, 0, f)
      | Some buffer \<Rightarrow>
          (case fwrite buffer f of
             (n, f') \<Rightarrow> (if n \<noteq> 1 then PROCESS_ABORTED else ERR_NONE, length buffer, f')))"

text \<open>
  \<^verbatim>\<open>lazily_resize\<close>. The result of the seek to the original is not checked by the C
  code, and neither is the result of \<^verbatim>\<open>vips_resize\<close>.
\<close>

definition lazily_resize :: "env \<Rightarrow> int \<Rightarrow> imgst_file \<Rightarrow> nat \<Rightarrow> error \<times> imgst_file" where
  "lazily_resize E res_code s idx =
     (if res_code = RES_ORIG then (ERR_NONE, s)
      else if res_code \<noteq> RES_SMALL \<and> res_code \<noteq> RES_THUMB then (ERR_RESOLUTIONS, s)
      else if validMetadataIndex idx s \<noteq> ERR_NONE then (validMetadataIndex idx s, s)
      else if res_get (offset (metadata s ! idx)) res_code \<noteq> INIT_OFFSET then (ERR_NONE, s)
      else case fseek_set (filep s) (sint (res_get (offset (metadata s ! idx)) RES_ORIG)) of
        (ok1, f1) \<Rightarrow>
          let orig_size = unat (res_get (size_arr (metadata s ! idx)) RES_ORIG)
          in case read_vips_from_file E orig_size f1 of
            (e, original_image, f2) \<Rightarrow>
              if e \<noteq> ERR_NONE then (e, s\<lparr>filep := f2\<rparr>)
              else
                let ratio =
                      shrink_value (the original_image)
                        (uint (res_resized (header s) ! nat (2 * res_code)))
                        (uint (res_resized (header s) ! nat (2 * res_code + 1)));
                    resized_image = vips_resize E (the original_image) ratio
                in case fseek_end f2 of
                  (ok2, f3) \<Rightarrow>
                    let off = ftell f3
                    in case write_vips_to_file E resized_image f3 of
                      (e', resized_size, f4) \<Rightarrow>
                        if e' \<noteq> ERR_NONE then (e', s\<lparr>filep := f4\<rparr>)
                        else updateMetadata E idx
                               (s\<lparr>filep := f4,
                                  metadata := (metadata s)
                                    [idx := (metadata s ! idx)
                                       \<lparr>offset := res_set (offset (metadata s ! idx)) res_code
                                                    (of_int off),
                                        size_arr := res_set (size_arr (metadata s ! idx)) res_code
                                                    (of_nat resized_size)\<rparr>]\<rparr>))"

text \<open>The components after the code are \<^verbatim>\<open>*height\<close> and \<^verbatim>\<open>*width\<close>.\<close>

definition get_resolution :: "env \<Rightarrow> byte list \<Rightarrow> error \<times> 32 word \<times> 32 word" where
  "get_resolution E image_buffer =
     (case vips_jpegload_buffer E image_buffer of
        None \<Rightarrow> (ERR_IMGLIB, 0, 0)
      | Some vipsimage \<Rightarrow> (ERR_NONE, of_int (Ysize vipsimage), of_int (Xsize vipsimage)))"

subsection \<open>imgst\_create.c\<close>

text \<open>One element of the array \<^verbatim>\<open>calloc\<close> returns: every byte is zero.\<close>

definition zero_metadata :: img_metadata where
  "zero_metadata =
     \<lparr>img_id = [], SHA = replicate SHA256_DIGEST_LENGTH 0, res_orig = (0, 0),
      size_arr = ResArray 0 0 0, offset = ResArray 0 0 0, is_valid = 0, unused_16 = 0\<rparr>"

text \<open>
  The for loop of \<^verbatim>\<open>do_create\<close>; on a failed write the metadata array is freed (the
  model empties it).
\<close>

function do_create_loop :: "env \<Rightarrow> imgst_file \<Rightarrow> nat \<Rightarrow> nat \<Rightarrow> error \<times> imgst_file \<times> nat" where
  "do_create_loop E s i num_files_written =
     (if i < unat (max_files (header s)) then
        (case updateMetadata E i s of
           (e, s') \<Rightarrow>
             if e \<noteq> ERR_NONE then (e, s'\<lparr>metadata := []\<rparr>, num_files_written)
             else do_create_loop E (s\<lparr>filep := filep s'\<rparr>) (Suc i) (num_files_written + 1))
      else (ERR_NONE, s, num_files_written))"
  by pat_completeness auto
termination
  by (relation "measure (\<lambda>(E, s, i, n). unat (max_files (header s)) - i)") auto

declare do_create_loop.simps [simp del]

text \<open>
  \<^verbatim>\<open>do_create\<close>. The caller has set \<^verbatim>\<open>max_files\<close> and \<^verbatim>\<open>res_resized\<close> in the header
  of the handle it passes. \<open>fopen_ok\<close> says whether \<^verbatim>\<open>fopen(imgst_filename, "wb")\<close>
  succeeds; the file it opens is empty.
\<close>

definition do_create :: "env \<Rightarrow> bool \<Rightarrow> imgst_file \<Rightarrow> error \<times> imgst_file" where
  "do_create E fopen_ok s =
     (let h = (header s)\<lparr>imgst_name := take MAX_IMGST_NAME CAT_TXT,
                          imgst_version := INIT_VER, num_files := INIT_NB_FILES\<rparr>;
          s0 = s\<lparr>header := h, metadata := replicate (unat (max_files h)) zero_metadata\<rparr>
      in if \<not> fopen_ok then (ERR_IO, s0\<lparr>metadata := []\<rparr>)
         else case updateHeader E (s0\<lparr>filep := \<lparr>contents = [], pos = 0, mode = WB\<rparr>\<rparr>) of
           (e, s1) \<Rightarrow>
             if e \<noteq> ERR_NONE then (e, s1\<lparr>metadata := []\<rparr>)
             else case do_create_loop E s1 0 1 of
               (e', s2, num_files_written) \<Rightarrow>
                 if e' \<noteq> ERR_NONE then (e', s2)
                 else if num_files_written \<noteq> unat (max_files (header s2) + 1)
                 then (ERR_IO, s2)
                 else (ERR_NONE, s2))"

subsection \<open>imgst\_insert.c\<close>

text \<open>The while loop that looks for an empty slot.\<close>

function do_insert_loop :: "img_metadata list \<Rightarrow> nat \<Rightarrow> nat \<Rightarrow> nat" where
  "do_insert_loop md maxf index =
     (if index < maxf \<and> is_valid (md ! index) \<noteq> 0
      then do_insert_loop md maxf (Suc index)
      else index)"
  by pat_completeness auto
termination
  by (relation "measure (\<lambda>(md, maxf, index). maxf - index)") auto

declare do_insert_loop.simps [simp del]

text \<open>
  Lines 48 to 67 of \<^verbatim>\<open>do_insert\<close>: content that no valid slot holds yet is appended to
  the file and its position recorded.
\<close>

definition do_insert_append :: "byte list \<Rightarrow> nat \<Rightarrow> imgst_file \<Rightarrow> error \<times> imgst_file" where
  "do_insert_append image_buffer index s =
     (if res_get (offset (metadata s ! index)) RES_ORIG = 0 then
        (case fseek_end (filep s) of
           (ok, f) \<Rightarrow>
             if \<not> ok then (ERR_IO, s\<lparr>filep := f\<rparr>)
             else
               let offset_endfile = ftell f;
                   s' = s\<lparr>filep := f,
                          metadata := (metadata s)
                            [index := (metadata s ! index)
                               \<lparr>offset := res_set (offset (metadata s ! index)) RES_ORIG
                                            (of_int offset_endfile)\<rparr>]\<rparr>
               in case fwrite image_buffer f of
                 (num_image_written, f') \<Rightarrow>
                   (if num_image_written \<noteq> 1 then ERR_IO else ERR_NONE, s'\<lparr>filep := f'\<rparr>))
      else (ERR_NONE, s))"

text \<open>
  Lines 69 to 88 of \<^verbatim>\<open>do_insert\<close>: the resolution, the remaining fields of the slot, the
  header, and the two writes to disk.
\<close>

definition do_insert_finish :: "env \<Rightarrow> byte list \<Rightarrow> nat \<Rightarrow> imgst_file \<Rightarrow> error \<times> imgst_file" where
  "do_insert_finish E image_buffer index s =
     (case get_resolution E image_buffer of
        (e, height, width) \<Rightarrow>
          if e \<noteq> ERR_NONE then (e, s)
          else
            let s' = s\<lparr>metadata := (metadata s)
                       [index := (metadata s ! index)
                          \<lparr>res_orig := (width, height),
                           is_valid := NON_EMPTY,
                           size_arr := res_set (size_arr (metadata s ! index))
                                         RES_ORIG (of_nat (length image_buffer))\<rparr>],
                     header := (header s)
                       \<lparr>imgst_version := imgst_version (header s) + 1,
                        num_files := num_files (header s) + 1\<rparr>\<rparr>
            in case updateHeader E s' of
              (e', s'') \<Rightarrow>
                if e' \<noteq> ERR_NONE then (e', s'')
                else updateMetadata E index s'')"

text \<open>
  What \<^verbatim>\<open>memcpy(metadata[index].img_id, img_id, MAX_IMG_ID + 1)\<close> leaves in the field: the
  whole string (its NUL, and behind it bytes that belong to no string) for an id of at
  most \<^verbatim>\<open>MAX_IMG_ID\<close> characters, the first 128 characters and no NUL for a longer
  one. \<^verbatim>\<open>strncmp\<close> in the dedup pass stays inside such a field. \<^verbatim>\<open>strcmp\<close> in
  \<^verbatim>\<open>findMetadataIndex\<close> differs from 0 on it for every id of at most \<^verbatim>\<open>MAX_IMG_ID\<close>
  characters, as in the model; for a longer id it reads on into the digest that
  follows the field, which the model does not follow.
\<close>

definition memcpy_id :: "string \<Rightarrow> string" where
  "memcpy_id iid = take (MAX_IMG_ID + 1) iid"

text \<open>
  \<^verbatim>\<open>do_insert\<close>; \<^verbatim>\<open>image_size\<close> is the length of the buffer. When the loop finds no
  empty slot, \<^verbatim>\<open>index\<close> is \<^verbatim>\<open>max_files\<close>: the two \<^verbatim>\<open>memcpy\<close> write behind the array,
  which is not part of the handle, and \<^verbatim>\<open>do_name_and_content_dedup\<close> refuses the index
  with \<^verbatim>\<open>ERR_INVALID_ARGUMENT\<close>.
\<close>

definition do_insert :: "env \<Rightarrow> byte list \<Rightarrow> string \<Rightarrow> imgst_file \<Rightarrow> error \<times> imgst_file" where
  "do_insert E image_buffer iid s =
     (if num_files (header s) \<ge> max_files (header s) then (ERR_FULL_IMGSTORE, s)
      else
        let index = do_insert_loop (metadata s) (unat (max_files (header s))) 0
        in if length (metadata s) \<le> index then (ERR_INVALID_ARGUMENT, s)
           else
             let sha = SHA256 E image_buffer;
                 s1 = s\<lparr>metadata := (metadata s)
                          [index := (metadata s ! index)
                             \<lparr>SHA := sha, img_id := memcpy_id iid\<rparr>]\<rparr>
             in case do_name_and_content_dedup s1 index of
               (e2, s2) \<Rightarrow>
                 if e2 \<noteq> ERR_NONE then (e2, s2)
                 else case do_insert_append image_buffer index s2 of
                   (e3, s3) \<Rightarrow>
                     if e3 \<noteq> ERR_NONE then (e3, s3)
                     else do_insert_finish E image_buffer index s3)"

subsection \<open>imgst\_read.c\<close>

text \<open>
  \<^verbatim>\<open>do_read\<close>. After the code come \<^verbatim>\<open>*image_buffer\<close> and \<^verbatim>\<open>*image_size\<close>, which the
  caller initialised to NULL (the empty list here) and 0. The result of the seek
  is not checked by the C code.
\<close>

definition do_read ::
  "env \<Rightarrow> string \<Rightarrow> int \<Rightarrow> imgst_file \<Rightarrow> error \<times> byte list \<times> 32 word \<times> imgst_file" where
  "do_read E iid resolution s =
     (if resolution \<noteq> RES_SMALL \<and> resolution \<noteq> RES_THUMB \<and> resolution \<noteq> RES_ORIG
      then (ERR_RESOLUTIONS, [], 0, s)
      else case findMetadataIndex iid s of
        (e, idx) \<Rightarrow>
          if e \<noteq> ERR_NONE then (e, [], 0, s)
          else case (if res_get (offset (metadata s ! idx)) resolution = INIT_OFFSET
                     then lazily_resize E resolution s idx else (ERR_NONE, s)) of
            (e1, s1) \<Rightarrow>
              if e1 \<noteq> ERR_NONE then (e1, [], 0, s1)
              else
                let image_size = res_get (size_arr (metadata s1 ! idx)) resolution
                in case fseek_set (filep s1)
                          (sint (res_get (offset (metadata s1 ! idx)) resolution)) of
                  (ok, f) \<Rightarrow>
                    (case fread (unat image_size) 1 f of
                       (n, buffer, f') \<Rightarrow>
                         if n \<noteq> 1 then (ERR_IO, [], image_size, s1\<lparr>filep := f'\<rparr>)
                         else (ERR_NONE, buffer, image_size, s1\<lparr>filep := f'\<rparr>)))"


subsection \<open>imgst\_delete.c\<close>

definition do_delete :: "env \<Rightarrow> string \<Rightarrow> imgst_file \<Rightarrow> error \<times> imgst_file" where
  "do_delete E iid s =
     (if num_files (header s) \<le> 0 then (ERR_FILE_NOT_FOUND, s)
      else case findMetadataIndex iid s of
        (e, idx) \<Rightarrow>
          if e \<noteq> ERR_NONE then (e, s)
          else
            let s1 = s\<lparr>metadata := (metadata s)[idx := (metadata s ! idx)\<lparr>is_valid := EMPTY\<rparr>]\<rparr>
            in case updateMetadata E idx s1 of
              (e2, s2) \<Rightarrow>
                if e2 \<noteq> ERR_NONE then (e2, s2)
                else updateHeader E
                       (s2\<lparr>header := (header s2)
                              \<lparr>num_files := num_files (header s2) - 1,
                               imgst_version := imgst_version (header s2) + 1\<rparr>\<rparr>))"

section \<open>Well-formed handles and the regions of the file\<close>

text \<open>
  What the layout has to provide: both structs have a positive size, which is the
  length of every encoding.
\<close>

definition env_ok :: "env \<Rightarrow> bool" where
  "env_ok E \<longleftrightarrow>
     0 < sizeof_imgst_header E \<and> 0 < sizeof_img_metadata E
     \<and> (\<forall>h. length (enc_header E h) = sizeof_imgst_header E)
     \<and> (\<forall>m. length (enc_metadata E m) = sizeof_img_metadata E)"

text \<open>
  The file starts with the header, the slots follow, the image bytes come after the
  last slot. \<open>handle_ok\<close> holds of a handle that \<^verbatim>\<open>do_open\<close> or \<^verbatim>\<open>do_create\<close> returned:
  the array has \<^verbatim>\<open>max_files\<close> elements and the file holds the whole table.
\<close>

definition slot_pos :: "env \<Rightarrow> nat \<Rightarrow> nat" where
  "slot_pos E idx = idx * sizeof_img_metadata E + sizeof_imgst_header E"

definition table_end :: "env \<Rightarrow> imgst_file \<Rightarrow> nat" where
  "table_end E s = slot_pos E (unat (max_files (header s)))"

definition disk_header :: "env \<Rightarrow> imgst_file \<Rightarrow> byte list" where
  "disk_header E s = take (sizeof_imgst_header E) (contents (filep s))"

definition disk_slot :: "env \<Rightarrow> imgst_file \<Rightarrow> nat \<Rightarrow> byte list" where
  "disk_slot E s i = take (sizeof_img_metadata E) (drop (slot_pos E i) (contents (filep s)))"

definition disk_heap :: "env \<Rightarrow> imgst_file \<Rightarrow> byte list" where
  "disk_heap E s = drop (table_end E s) (contents (filep s))"

definition handle_ok :: "env \<Rightarrow> imgst_file \<Rightarrow> bool" where
  "handle_ok E s \<longleftrightarrow>
     length (metadata s) = unat (max_files (header s))
     \<and> table_end E s \<le> length (contents (filep s))"

text \<open>
  The number of slots whose valid flag is set, and the invariant of the data model:
  the array has \<^verbatim>\<open>max_files\<close> slots and \<^verbatim>\<open>num_files\<close> counts the valid ones.
\<close>

definition count_valid :: "img_metadata list \<Rightarrow> nat" where
  "count_valid md = length (filter (\<lambda>m. is_valid m \<noteq> EMPTY) md)"

definition store_inv :: "imgst_file \<Rightarrow> bool" where
  "store_inv s \<longleftrightarrow>
     length (metadata s) = unat (max_files (header s))
     \<and> unat (num_files (header s)) = count_valid (metadata s)"

text \<open>
  What the loop of \<^verbatim>\<open>do_name_and_content_dedup\<close> takes for a copy of the content whose
  digest is \<open>sha\<close>, when \<open>k\<close> is the slot being filled: another slot, valid, with an equal
  digest.
\<close>

definition is_clone :: "byte list \<Rightarrow> img_metadata list \<Rightarrow> nat \<Rightarrow> nat \<Rightarrow> bool" where
  "is_clone sha md k j \<longleftrightarrow>
     j \<noteq> k \<and> is_valid (md ! j) \<noteq> 0 \<and> shaCompare sha (SHA (md ! j)) = 0"

text \<open>
  The slot \<open>m\<close> records, for its original, a position behind the table at which the
  file holds the bytes \<open>C\<close>.
\<close>

definition holds_content :: "env \<Rightarrow> imgst_file \<Rightarrow> img_metadata \<Rightarrow> byte list \<Rightarrow> bool" where
  "holds_content E s m C \<longleftrightarrow>
     0 \<le> sint (res_get (offset m) RES_ORIG)
     \<and> table_end E s \<le> nat (sint (res_get (offset m) RES_ORIG))
     \<and> nat (sint (res_get (offset m) RES_ORIG)) + length C \<le> length (contents (filep s))
     \<and> take (length C) (drop (nat (sint (res_get (offset m) RES_ORIG))) (contents (filep s))) = C"

text \<open>
  The digests of the store tell the truth about \<open>C\<close>: every valid slot whose digest is
  that of \<open>C\<close> points at the bytes \<open>C\<close>. It holds of a store that \<^verbatim>\<open>do_insert\<close> filled
  unless two of its contents collide under SHA-256.
\<close>

definition dedup_sound :: "env \<Rightarrow> imgst_file \<Rightarrow> byte list \<Rightarrow> bool" where
  "dedup_sound E s C \<longleftrightarrow>
     (\<forall>m \<in> set (metadata s).
        is_valid m \<noteq> 0 \<and> shaCompare (SHA256 E C) (SHA m) = 0
          \<longrightarrow> res_get (offset m) RES_ORIG \<noteq> 0 \<and> holds_content E s m C)"

text \<open>
  The handles a program can hold after a successful \<^verbatim>\<open>do_create\<close> followed by calls of
  \<^verbatim>\<open>do_insert\<close>, \<^verbatim>\<open>do_delete\<close> and \<^verbatim>\<open>do_read\<close> on the same handle. A call that fails
  counts as well: the handle is then whatever the failed call left (for a call that
  stops the process, what it had done to the handle by then).
\<close>

inductive reachable :: "env \<Rightarrow> imgst_file \<Rightarrow> bool" for E :: env where
  created: "do_create E fopen_ok s0 = (ERR_NONE, s) \<Longrightarrow> reachable E s"
| inserted: "reachable E s \<Longrightarrow> do_insert E image_buffer iid s = (e, s') \<Longrightarrow> reachable E s'"
| deleted: "reachable E s \<Longrightarrow> do_delete E iid s = (e, s') \<Longrightarrow> reachable E s'"
| read: "reachable E s \<Longrightarrow> do_read E iid resolution s = (e, buffer, image_size, s')
           \<Longrightarrow> reachable E s'"

section \<open>A miniature platform for the examples\<close>

text \<open>
  A layout with a two-byte header (the count and the capacity) and one-byte slots (the
  valid flag), a digest that pads or cuts the content to 32 bytes, and a codec that
  takes the first byte of a non-empty buffer for both dimensions and saves an image as
  the first byte of its pixels.
\<close>

definition example_env :: env where
  "example_env =
     \<lparr>sizeof_imgst_header = 2, sizeof_img_metadata = 1,
      enc_header = (\<lambda>h. [ucast (num_files h), ucast (max_files h)]),
      enc_metadata = (\<lambda>m. [ucast (is_valid m)]),
      dec_header = (\<lambda>bs. \<lparr>imgst_name = CAT_TXT, imgst_version = 0, num_files = ucast (bs ! 0),
                            max_files = ucast (bs ! 1), res_resized = [64, 64, 256, 256],
                            unused_32 = 0, unused_64 = 0\<rparr>),
      dec_metadata = (\<lambda>bs. zero_metadata\<lparr>is_valid := ucast (bs ! 0)\<rparr>),
      SHA256 = (\<lambda>bs. take 32 (bs @ replicate 32 0)),
      vips_jpegload_buffer =
        (\<lambda>bs. case bs of [] \<Rightarrow> None
              | b # _ \<Rightarrow> Some \<lparr>Xsize = uint b, Ysize = uint b, pixels = bs\<rparr>),
      vips_resize = (\<lambda>v r. Some v),
      vips_jpegsave_buffer = (\<lambda>v. Some (take 1 (pixels v)))\<rparr>"

text \<open>The handle a caller passes to \<^verbatim>\<open>do_create\<close> for a store of \<open>n\<close> slots.\<close>

definition example_new :: "32 word \<Rightarrow> imgst_file" where
  "example_new n =
     \<lparr>filep = \<lparr>contents = [], pos = 0, mode = RB\<rparr>,
      header = \<lparr>imgst_name = [], imgst_version = 0, num_files = 0, max_files = n,
                res_resized = [64, 64, 256, 256], unused_32 = 0, unused_64 = 0\<rparr>,
      metadata = []\<rparr>"

text \<open>A store of \<open>n\<close> empty slots, opened \<^verbatim>\<open>"rb+"\<close>.\<close>

definition example_empty :: "nat \<Rightarrow> imgst_file" where
  "example_empty n =
     \<lparr>filep = \<lparr>contents = [0, of_nat n] @ replicate n 0, pos = 0, mode = RB_PLUS\<rparr>,
      header = \<lparr>imgst_name = CAT_TXT, imgst_version = 0, num_files = 0, max_files = of_nat n,
                res_resized = [64, 64, 256, 256], unused_32 = 0, unused_64 = 0\<rparr>,
      metadata = replicate n zero_metadata\<rparr>"

text \<open>
  A store of two slots, opened \<^verbatim>\<open>"rb+"\<close>, that holds the two bytes 7, 1 under the id
  \<^verbatim>\<open>a\<close> in its first slot.
\<close>

definition example_store :: imgst_file where
  "example_store =
     \<lparr>filep = \<lparr>contents = [1, 2, 1, 0, 7, 1], pos = 0, mode = RB_PLUS\<rparr>,
      header = \<lparr>imgst_name = CAT_TXT, imgst_version = 1, num_files = 1, max_files = 2,
                res_resized = [64, 64, 256, 256], unused_32 = 0, unused_64 = 0\<rparr>,
      metadata =
        [\<lparr>img_id = ''a'', SHA = [7, 1] @ replicate 30 0, res_orig = (7, 7),
          size_arr = ResArray 0 0 2, offset = ResArray 0 0 4, is_valid = 1, unused_16 = 0\<rparr>,
         zero_metadata]\<rparr>"

text \<open>
  A content of \<open>2 ^ 32 + 1\<close> bytes: the byte 255 followed by zeros.
\<close>

definition big_tail :: "byte list" where
  "big_tail = replicate (2 ^ 32) 0"

definition big_content :: "byte list" where
  "big_content = 255 # big_tail"

section \<open>Properties\<close>

subsection \<open>The id that is stored\<close>

lemma memcpy_id_short: "length iid \<le> MAX_IMG_ID \<Longrightarrow> memcpy_id iid = iid"
  by (simp add: memcpy_id_def)

lemma take_memcpy_id: "take MAX_IMG_ID (memcpy_id iid) = take MAX_IMG_ID iid"
  by (simp add: memcpy_id_def min_def)

lemma strncmp_memcpy_id: "strncmp (memcpy_id iid) b MAX_IMG_ID = strncmp iid b MAX_IMG_ID"
  by (simp add: strncmp_def take_memcpy_id)

subsection \<open>Streams and the two persist functions\<close>

lemma length_overwrite: "length (overwrite xs p d) = max (length xs) (p + length d)"
  by (auto simp: overwrite_def)

lemma nth_overwrite:
  "i < max (length xs) (p + length d) \<Longrightarrow>
   overwrite xs p d ! i =
     (if i < p then (if i < length xs then xs ! i else 0)
      else if i < p + length d then d ! (i - p) else xs ! i)"
  by (auto simp: overwrite_def nth_append min_def)

lemma region_overwrite_same:
  "take (length d) (drop p (overwrite xs p d)) = d"
  by (auto simp: overwrite_def min_def)

lemma drop_overwrite_after:
  "p + length d \<le> q \<Longrightarrow> drop q (overwrite xs p d) = drop q xs"
  by (auto simp: overwrite_def min_def)

lemma region_overwrite_before:
  "q + n \<le> p \<Longrightarrow> q + n \<le> length xs \<Longrightarrow> take n (drop q (overwrite xs p d)) = take n (drop q xs)"
  by (auto simp: overwrite_def min_def drop_take)

lemma region_overwrite_after:
  "p + length d \<le> q \<Longrightarrow> take n (drop q (overwrite xs p d)) = take n (drop q xs)"
  by (simp add: drop_overwrite_after)

lemma fseek_set_nat: "fseek_set f (int n) = (True, f\<lparr>pos := n\<rparr>)"
  by (simp add: fseek_set_def)

lemma updateMetadata_frame:
  "updateMetadata E idx s = (e, s') \<Longrightarrow> header s' = header s \<and> metadata s' = metadata s"
  by (auto simp: updateMetadata_def fseek_set_def split: prod.splits if_splits)

lemma updateHeader_frame:
  "updateHeader E s = (e, s') \<Longrightarrow> header s' = header s \<and> metadata s' = metadata s"
  by (auto simp: updateHeader_def split: prod.splits if_splits)

lemma updateMetadata_ok:
  "updateMetadata E idx s = (ERR_NONE, s') \<Longrightarrow>
     idx < unat (max_files (header s)) \<and> mode (filep s) \<noteq> RB \<and>
     s' = s\<lparr>filep := (filep s)\<lparr>pos := idx * sizeof_img_metadata E + sizeof_imgst_header E + length (enc_metadata E (metadata s ! idx)),
         contents := overwrite (contents (filep s)) (idx * sizeof_img_metadata E + sizeof_imgst_header E) (enc_metadata E (metadata s ! idx))\<rparr>\<rparr>"
  by (auto simp: updateMetadata_def fseek_set_nat fwrite_def rewind_def simp del: of_nat_add of_nat_mult split: prod.splits if_splits)

lemma updateHeader_ok:
  "updateHeader E s = (ERR_NONE, s') \<Longrightarrow>
     mode (filep s) \<noteq> RB \<and>
     s' = s\<lparr>filep := (filep s)\<lparr>pos := length (enc_header E (header s)),
         contents := overwrite (contents (filep s)) 0 (enc_header E (header s))\<rparr>\<rparr>"
  by (auto simp: updateHeader_def fwrite_def rewind_def split: prod.splits if_splits)


lemma find_loop_ge: "i \<le> findMetadataIndex_loop md maxf iid i"
proof (induction md maxf iid i rule: findMetadataIndex_loop.induct)
  case (1 md maxf iid i)
  then show ?case
    by (subst findMetadataIndex_loop.simps) (auto simp: Suc_le_eq intro: less_imp_le)
qed

lemma find_loop_hit:
  "findMetadataIndex_loop md maxf iid i < maxf \<Longrightarrow>
     img_id (md ! findMetadataIndex_loop md maxf iid i) = iid
     \<and> is_valid (md ! findMetadataIndex_loop md maxf iid i) \<noteq> EMPTY"
proof (induction md maxf iid i rule: findMetadataIndex_loop.induct)
  case (1 md maxf iid i)
  show ?case
  proof (cases "i < maxf \<and> (strcmp (img_id (md ! i)) iid \<noteq> 0 \<or> is_valid (md ! i) = EMPTY)")
    case True
    then have eq: "findMetadataIndex_loop md maxf iid i = findMetadataIndex_loop md maxf iid (Suc i)"
      by (subst findMetadataIndex_loop.simps) simp
    from "1.IH" [OF True] "1.prems" show ?thesis unfolding eq by simp
  next
    case False
    then have eq: "findMetadataIndex_loop md maxf iid i = i"
      by (subst findMetadataIndex_loop.simps) auto
    from False "1.prems" show ?thesis unfolding eq by (auto simp: strcmp_def split: if_splits)
  qed
qed

lemma find_loop_skip:
  "i \<le> j \<Longrightarrow> j < findMetadataIndex_loop md maxf iid i \<Longrightarrow>
     j < maxf \<and> \<not> (img_id (md ! j) = iid \<and> is_valid (md ! j) \<noteq> EMPTY)"
proof (induction md maxf iid i rule: findMetadataIndex_loop.induct)
  case (1 md maxf iid i)
  show ?case
  proof (cases "i < maxf \<and> (strcmp (img_id (md ! i)) iid \<noteq> 0 \<or> is_valid (md ! i) = EMPTY)")
    case True
    then have eq: "findMetadataIndex_loop md maxf iid i = findMetadataIndex_loop md maxf iid (Suc i)"
      by (subst findMetadataIndex_loop.simps) simp
    show ?thesis
    proof (cases "j = i")
      case True
      with \<open>i < maxf \<and> _\<close> show ?thesis by (auto simp: strcmp_def split: if_splits)
    next
      case False
      with "1.prems" have "Suc i \<le> j" by simp
      from "1.IH" [OF True this] "1.prems" show ?thesis unfolding eq by simp
    qed
  next
    case False
    then have eq: "findMetadataIndex_loop md maxf iid i = i"
      by (subst findMetadataIndex_loop.simps) auto
    from "1.prems" show ?thesis unfolding eq by simp
  qed
qed

lemma findMetadataIndex_ok:
  assumes "findMetadataIndex iid s = (ERR_NONE, idx)"
  shows "idx < unat (max_files (header s))" "img_id (metadata s ! idx) = iid"
        "is_valid (metadata s ! idx) \<noteq> EMPTY"
        "\<forall>j<idx. \<not> (img_id (metadata s ! j) = iid \<and> is_valid (metadata s ! j) \<noteq> EMPTY)"
        "idx = findMetadataIndex_loop (metadata s) (unat (max_files (header s))) iid 0"
proof -
  let ?r = "findMetadataIndex_loop (metadata s) (unat (max_files (header s))) iid 0"
  from assms have r: "idx = ?r" and v: "validMetadataIndex ?r s = ERR_NONE"
    by (auto simp: findMetadataIndex_def Let_def split: if_splits)
  from v have lt: "?r < unat (max_files (header s))"
    by (auto simp: validMetadataIndex_def split: if_splits)
  from find_loop_hit [OF lt] find_loop_skip [of 0 _ "metadata s" "unat (max_files (header s))" iid] lt r
  show "idx < unat (max_files (header s))" "img_id (metadata s ! idx) = iid"
        "is_valid (metadata s ! idx) \<noteq> EMPTY"
        "\<forall>j<idx. \<not> (img_id (metadata s ! j) = iid \<and> is_valid (metadata s ! j) \<noteq> EMPTY)"
        "idx = findMetadataIndex_loop (metadata s) (unat (max_files (header s))) iid 0"
    by auto
qed

lemma do_delete_ok:
  assumes "do_delete E iid s = (ERR_NONE, s')"
  shows "\<exists>idx. findMetadataIndex iid s = (ERR_NONE, idx)
     \<and> mode (filep s) \<noteq> RB
     \<and> num_files (header s) \<noteq> 0
     \<and> metadata s' = (metadata s)[idx := (metadata s ! idx)\<lparr>is_valid := EMPTY\<rparr>]
     \<and> header s' = (header s)\<lparr>num_files := num_files (header s) - 1,
                                imgst_version := imgst_version (header s) + 1\<rparr>
     \<and> contents (filep s') =
         overwrite (overwrite (contents (filep s)) (slot_pos E idx)
                      (enc_metadata E (((metadata s)[idx := (metadata s ! idx)\<lparr>is_valid := EMPTY\<rparr>]) ! idx)))
           0 (enc_header E ((header s)\<lparr>num_files := num_files (header s) - 1,
                                imgst_version := imgst_version (header s) + 1\<rparr>))
     \<and> mode (filep s') = mode (filep s)"
proof -
  from assms obtain idx where f: "findMetadataIndex iid s = (ERR_NONE, idx)"
    and nz: "num_files (header s) \<noteq> 0"
    by (cases "findMetadataIndex iid s") (auto simp: do_delete_def split: if_splits)
  let ?s1 = "s\<lparr>metadata := (metadata s)[idx := (metadata s ! idx)\<lparr>is_valid := EMPTY\<rparr>]\<rparr>"
  from assms f nz obtain s2 where
    um: "updateMetadata E idx ?s1 = (ERR_NONE, s2)" and
    uh: "updateHeader E (s2\<lparr>header := (header s2)
                              \<lparr>num_files := num_files (header s2) - 1,
                               imgst_version := imgst_version (header s2) + 1\<rparr>\<rparr>) = (ERR_NONE, s')"
    by (cases "updateMetadata E idx ?s1") (auto simp: do_delete_def Let_def split: if_splits)
  note a = updateMetadata_ok [OF um] and b = updateHeader_ok [OF uh]
  from a have s2: "header s2 = header s" "metadata s2 = metadata ?s1"
      "contents (filep s2) = overwrite (contents (filep s)) (slot_pos E idx) (enc_metadata E (metadata ?s1 ! idx))"
      "mode (filep s2) = mode (filep s)" "mode (filep s) \<noteq> RB"
    by (auto simp: slot_pos_def)
  from b s2 have "header s' = (header s)\<lparr>num_files := num_files (header s) - 1,
                                imgst_version := imgst_version (header s) + 1\<rparr>"
     "metadata s' = metadata ?s1"
     "contents (filep s') = overwrite (contents (filep s2)) 0 (enc_header E ((header s)\<lparr>num_files := num_files (header s) - 1,
                                imgst_version := imgst_version (header s) + 1\<rparr>))"
     "mode (filep s') = mode (filep s)"
    by auto
  with f nz s2 show ?thesis by auto
qed


subsection \<open>Rounding a quotient to a double\<close>
















lemma pw_eval: "(2::real) powi e = (if 0 \<le> e then 2 ^ nat e else 1 / 2 ^ nat (- e))"
  by (simp add: power_int_def power_one_over inverse_eq_divide)













subsection \<open>C4: the resize ratio\<close>







text \<open>
  The slack in the fit is needed: for a 151 x 151 original and a box of 100 x 100 the
  double nearest to \<open>100 / 151\<close> lies above it, and the exact product with 151 is above
  100.
\<close>

lemma shrink_value_rounds_up:
  "shrink_value \<lparr>Xsize = 151, Ysize = 151, pixels = []\<rparr> 100 100
     = Finite (2982516309516885 / 4503599627370496)
   \<and> 100 < 2982516309516885 / 4503599627370496 * (151::real)"
  by (simp add: shrink_value_def double_div_def nearest_double_def quot_exponent_def
      round_half_even_def bit_length.simps pw_eval)

subsection \<open>Reading from a stream\<close>

lemma fread_1_ok:
  "mode f \<noteq> WB \<Longrightarrow> 0 < sz \<Longrightarrow> pos f + sz \<le> length (contents f) \<Longrightarrow>
     fread sz 1 f = (1, take sz (drop (pos f) (contents f)), f\<lparr>pos := pos f + sz\<rparr>)"
proof -
  assume a: "mode f \<noteq> WB" "0 < sz" "pos f + sz \<le> length (contents f)"
  then have "0 < (length (contents f) - pos f) div sz"
    by (simp add: div_greater_zero_iff)
  then have "min 1 ((length (contents f) - pos f) div sz) = 1" by simp
  moreover from a have "min sz (length (contents f) - pos f) = sz" by simp
  ultimately show ?thesis using a by (simp add: fread_def Let_def)
qed

lemma fread_1_fst:
  "fst (fread sz 1 f) = (if mode f \<noteq> WB \<and> 0 < sz \<and> pos f + sz \<le> length (contents f) then 1 else 0)"
proof (cases "mode f \<noteq> WB \<and> 0 < sz \<and> pos f + sz \<le> length (contents f)")
  case True
  then show ?thesis using fread_1_ok [of f sz] by simp
next
  case False
  then have "mode f = WB \<or> sz = 0 \<or> (length (contents f) - pos f) div sz = 0"
    by (auto simp: div_eq_0_iff)
  then show ?thesis using False by (auto simp: fread_def Let_def)
qed

lemma fread_frame:
  "fread sz n f = (k, b, f') \<Longrightarrow> contents f' = contents f \<and> mode f' = mode f"
  by (auto simp: fread_def Let_def split: if_splits)

lemma fread_count:
  "fst (fread sz n f) \<le> (length (contents f) - pos f) div sz"
  by (simp add: fread_def Let_def)

subsection \<open>C6: a full store refuses an insert at once\<close>

text \<open>
  C6. When \<^verbatim>\<open>num_files\<close> has reached \<^verbatim>\<open>max_files\<close>, \<^verbatim>\<open>do_insert\<close> returns
  \<^verbatim>\<open>ERR_FULL_IMGSTORE\<close> and the handle (header with \<^verbatim>\<open>num_files\<close>, the metadata array, the
  file) is exactly what it was: the check comes before the scan for a free slot and
  before any assignment. The example is the store of capacity 1 after one successful
  insert.
\<close>

theorem do_insert_full:
  "max_files (header s) \<le> num_files (header s) \<Longrightarrow>
     do_insert E image_buffer iid s = (ERR_FULL_IMGSTORE, s)"
  by (simp add: do_insert_def)

theorem do_insert_full_witness:
  "fst (do_insert example_env [7, 1] ''a'' (example_empty 1)) = ERR_NONE
   \<and> num_files (header (snd (do_insert example_env [7, 1] ''a'' (example_empty 1)))) = 1
   \<and> do_insert example_env [9] ''b'' (snd (do_insert example_env [7, 1] ''a'' (example_empty 1)))
       = (ERR_FULL_IMGSTORE, snd (do_insert example_env [7, 1] ''a'' (example_empty 1)))"
proof -
  let ?s1 = "snd (do_insert example_env [7, 1] ''a'' (example_empty 1))"
  have ok: "fst (do_insert example_env [7, 1] ''a'' (example_empty 1)) = ERR_NONE"
    by code_simp
  have n: "num_files (header ?s1) = 1"
    by code_simp
  have full: "max_files (header ?s1) \<le> num_files (header ?s1)"
    by code_simp
  from ok n do_insert_full [OF full, of example_env "[9]" "''b''"] show ?thesis by simp
qed

subsection \<open>C8: opening a truncated file\<close>

text \<open>
  C8, as the code has it. \<^verbatim>\<open>do_open\<close> reads one header and then asks for \<^verbatim>\<open>max_files\<close>
  slots in one \<^verbatim>\<open>fread\<close>. When the file holds the header but fewer than \<^verbatim>\<open>max_files\<close>
  complete slot records after it, \<^verbatim>\<open>do_open\<close> fails with \<^verbatim>\<open>ERR_IO\<close> and leaves no open
  store. This is the same code it returns when the file cannot be opened: the library
  has no separate code for a corrupt file.
\<close>

theorem do_open_truncated:
  assumes mode_ok: "open_mode = ''rb'' \<or> open_mode = ''rb+''"
    and hdr: "0 < sizeof_imgst_header E" "sizeof_imgst_header E \<le> length bs"
    and trunc: "(length bs - sizeof_imgst_header E) div sizeof_img_metadata E
                  < unat (max_files (dec_header E (take (sizeof_imgst_header E) bs)))"
  shows "do_open E (Some bs) open_mode = (ERR_IO, None)
         \<and> do_open E None open_mode = (ERR_IO, None)"
proof -
  let ?f = "\<lparr>contents = bs, pos = 0, mode = (if strcmp open_mode ''rb'' = 0 then RB else RB_PLUS)\<rparr>"
  let ?h = "dec_header E (take (sizeof_imgst_header E) bs)"
  have m: "strcmp open_mode ''rb'' = 0 \<or> strcmp open_mode ''rb+'' = 0"
    using mode_ok by (auto simp: strcmp_def)
  have r1: "fread (sizeof_imgst_header E) 1 ?f
              = (1, take (sizeof_imgst_header E) bs, ?f\<lparr>pos := sizeof_imgst_header E\<rparr>)"
    using hdr by (subst fread_1_ok) auto
  let ?f1 = "?f\<lparr>pos := sizeof_imgst_header E\<rparr>"
  obtain nm mb f2 where r2: "fread (sizeof_img_metadata E) (unat (max_files ?h)) ?f1 = (nm, mb, f2)"
    by (cases "fread (sizeof_img_metadata E) (unat (max_files ?h)) ?f1") auto
  have "nm \<le> (length bs - sizeof_imgst_header E) div sizeof_img_metadata E"
    using fread_count [of "sizeof_img_metadata E" "unat (max_files ?h)" ?f1] r2 by simp
  with trunc have lt: "nm < unat (max_files ?h)" by simp
  have ne: "1 + nm \<noteq> unat (max_files ?h + 1)"
  proof (cases "max_files ?h + 1 = 0")
    case True
    then show ?thesis by simp
  next
    case False
    then have "unat (max_files ?h + 1) = unat (max_files ?h) + 1"
      using unatSuc [of "max_files ?h"] by (simp add: add.commute)
    with lt show ?thesis by simp
  qed
  show ?thesis
    using m r1 r2 ne by (simp add: do_open_def Let_def)
qed

theorem do_open_truncated_witness:
  "do_open example_env (Some [0, 2, 0]) ''rb+'' = (ERR_IO, None)
   \<and> do_open example_env None ''rb+'' = (ERR_IO, None)
   \<and> fst (do_open example_env (Some [0, 2, 0, 0]) ''rb+'') = ERR_NONE"
proof -
  have ok: "fst (do_open example_env (Some [0, 2, 0, 0]) ''rb+'') = ERR_NONE"
    by code_simp
  have h1: "0 < sizeof_imgst_header example_env" by code_simp
  have h2: "sizeof_imgst_header example_env \<le> length [0::byte, 2, 0]" by code_simp
  have h3: "(length [0::byte, 2, 0] - sizeof_imgst_header example_env) div sizeof_img_metadata example_env
                  < unat (max_files (dec_header example_env (take (sizeof_imgst_header example_env) [0, 2, 0])))"
    by code_simp
  from do_open_truncated [of "''rb+''" example_env "[0, 2, 0]", OF _ h1 h2 h3] ok
  show ?thesis by simp
qed

text \<open>
  The claim as written (a truncated file is reported with an error kind of its own,
  distinct from the one for a file that cannot be opened) fails for the three-byte
  file whose header announces two slots and which holds one: both calls return
  \<^verbatim>\<open>ERR_IO\<close>.
\<close>

theorem do_open_truncated_same_code_as_unopenable:
  "fst (do_open example_env (Some [0, 2, 0]) ''rb'') = ERR_IO
   \<and> fst (do_open example_env None ''rb'') = ERR_IO"
  by code_simp

subsection \<open>The slot table on disk\<close>

lemma slot_pos_mono:
  "j < i \<Longrightarrow> slot_pos E j + sizeof_img_metadata E \<le> slot_pos E i"
proof -
  assume "j < i"
  then have "Suc j * sizeof_img_metadata E \<le> i * sizeof_img_metadata E"
    by (intro mult_le_mono1) simp
  then show ?thesis by (simp add: slot_pos_def)
qed

lemma slot_pos_ge_header: "sizeof_imgst_header E \<le> slot_pos E i"
  by (simp add: slot_pos_def)

lemma slot_in_table:
  "i < unat (max_files (header s)) \<Longrightarrow> slot_pos E i + sizeof_img_metadata E \<le> table_end E s"
  unfolding table_end_def by (rule slot_pos_mono)


subsection \<open>The two scans of do\_insert\<close>

lemma insert_loop_ge: "i \<le> do_insert_loop md maxf i"
proof (induction md maxf i rule: do_insert_loop.induct)
  case (1 md maxf i)
  then show ?case
    by (subst do_insert_loop.simps) (auto simp: Suc_le_eq intro: less_imp_le)
qed

lemma insert_loop_free:
  "do_insert_loop md maxf i < maxf \<Longrightarrow> is_valid (md ! do_insert_loop md maxf i) = 0"
proof (induction md maxf i rule: do_insert_loop.induct)
  case (1 md maxf i)
  show ?case
  proof (cases "i < maxf \<and> is_valid (md ! i) \<noteq> 0")
    case True
    then have eq: "do_insert_loop md maxf i = do_insert_loop md maxf (Suc i)"
      by (subst do_insert_loop.simps) simp
    from "1.IH" [OF True] "1.prems" show ?thesis unfolding eq by simp
  next
    case False
    then have eq: "do_insert_loop md maxf i = i"
      by (subst do_insert_loop.simps) auto
    from False "1.prems" show ?thesis unfolding eq by auto
  qed
qed

lemma insert_loop_finds:
  "i \<le> j \<Longrightarrow> j < maxf \<Longrightarrow> is_valid (md ! j) = 0 \<Longrightarrow> do_insert_loop md maxf i \<le> j"
proof (induction md maxf i rule: do_insert_loop.induct)
  case (1 md maxf i)
  show ?case
  proof (cases "i < maxf \<and> is_valid (md ! i) \<noteq> 0")
    case True
    then have eq: "do_insert_loop md maxf i = do_insert_loop md maxf (Suc i)"
      by (subst do_insert_loop.simps) simp
    from True "1.prems" have "i \<noteq> j" by auto
    with "1.prems" have "Suc i \<le> j" by simp
    from "1.IH" [OF True this] "1.prems" show ?thesis unfolding eq by simp
  next
    case False
    then have eq: "do_insert_loop md maxf i = i"
      by (subst do_insert_loop.simps) auto
    from "1.prems" show ?thesis unfolding eq by simp
  qed
qed

lemma count_valid_all:
  "count_valid md < length md \<Longrightarrow> \<exists>j<length md. is_valid (md ! j) = 0"
proof (rule ccontr)
  assume lt: "count_valid md < length md" and "\<not> (\<exists>j<length md. is_valid (md ! j) = 0)"
  then have "\<forall>m\<in>set md. is_valid m \<noteq> EMPTY"
    by (auto simp: in_set_conv_nth EMPTY_def)
  then have "filter (\<lambda>m. is_valid m \<noteq> EMPTY) md = md" by (simp add: filter_id_conv)
  with lt show False by (simp add: count_valid_def)
qed

lemma free_slot_found:
  assumes "store_inv s" and "num_files (header s) < max_files (header s)"
  shows "do_insert_loop (metadata s) (unat (max_files (header s))) 0 < length (metadata s)"
    and "is_valid (metadata s ! do_insert_loop (metadata s) (unat (max_files (header s))) 0) = 0"
proof -
  from assms have len: "length (metadata s) = unat (max_files (header s))"
    and "count_valid (metadata s) < length (metadata s)"
    by (simp_all add: store_inv_def word_less_nat_alt)
  from count_valid_all [OF this(2)] obtain j where j: "j < length (metadata s)" "is_valid (metadata s ! j) = 0"
    by blast
  from insert_loop_finds [of 0 j "unat (max_files (header s))" "metadata s"] j len
  have "do_insert_loop (metadata s) (unat (max_files (header s))) 0 \<le> j" by simp
  with j show a: "do_insert_loop (metadata s) (unat (max_files (header s))) 0 < length (metadata s)" by simp
  from insert_loop_free [of "metadata s" "unat (max_files (header s))" 0] a len
  show "is_valid (metadata s ! do_insert_loop (metadata s) (unat (max_files (header s))) 0) = 0" by simp
qed


lemma dedup_loop_shape:
  "dedup_loop md maxf k i hc = (e, md', hc') \<Longrightarrow>
     md' = md[k := (md ! k)\<lparr>offset := offset (md' ! k), size_arr := size_arr (md' ! k)\<rparr>]"
proof (induction md maxf k i hc rule: dedup_loop.induct)
  case (1 md maxf k i hc)
  show ?case
  proof (cases "i < maxf")
    case False
    with "1.prems" have "md' = md" by (subst (asm) dedup_loop.simps) simp
    then show ?thesis by simp
  next
    case lt: True
    show ?thesis
    proof (cases "i \<noteq> k \<and> is_valid (md ! i) \<noteq> 0")
      case False
      with lt "1.prems" have "dedup_loop md maxf k (Suc i) hc = (e, md', hc')"
        by (subst (asm) dedup_loop.simps) auto
      from "1.IH"(3) [OF lt False this] show ?thesis .
    next
      case v: True
      show ?thesis
      proof (cases "strncmp (img_id (md ! k)) (img_id (md ! i)) MAX_IMG_ID = 0")
        case True
        with lt v "1.prems" have "md' = md" by (subst (asm) dedup_loop.simps) simp
        then show ?thesis by simp
      next
        case ns: False
        show ?thesis
        proof (cases "shaCompare (SHA (md ! k)) (SHA (md ! i)) = 0")
          case False
          with lt v ns "1.prems" have "dedup_loop md maxf k (Suc i) hc = (e, md', hc')"
            by (subst (asm) dedup_loop.simps) simp
          from "1.IH"(2) [OF lt v ns False this] show ?thesis .
        next
          case True
          let ?md2 = "md[k := (md ! k)\<lparr>offset := offset (md ! i), size_arr := size_arr (md ! i)\<rparr>]"
          from True lt v ns "1.prems" have "dedup_loop ?md2 maxf k (Suc i) 1 = (e, md', hc')"
            by (subst (asm) dedup_loop.simps) simp
          from "1.IH"(1) [OF lt v ns True this]
          have r: "md' = ?md2[k := (?md2 ! k)\<lparr>offset := offset (md' ! k), size_arr := size_arr (md' ! k)\<rparr>]" .
          show ?thesis
          proof (cases "k < length md")
            case True
            with r show ?thesis by simp
          next
            case False
            with r show ?thesis by (simp add: list_update_beyond)
          qed
        qed
      qed
    qed
  qed
qed

lemma dedup_loop_duplicate:
  "i \<le> j \<Longrightarrow> j < maxf \<Longrightarrow> j \<noteq> k \<Longrightarrow> is_valid (md ! j) \<noteq> 0 \<Longrightarrow>
   strncmp (img_id (md ! k)) (img_id (md ! j)) MAX_IMG_ID = 0 \<Longrightarrow>
     fst (dedup_loop md maxf k i hc) = ERR_DUPLICATE_ID"
proof (induction md maxf k i hc rule: dedup_loop.induct)
  case (1 md maxf k i hc)
  from "1.prems" have lt: "i < maxf" by simp
  show ?case
  proof (cases "i \<noteq> k \<and> is_valid (md ! i) \<noteq> 0")
    case False
    with "1.prems" have "i \<noteq> j" by auto
    with "1.prems" have sj: "Suc i \<le> j" by simp
    from lt False have eq: "dedup_loop md maxf k i hc = dedup_loop md maxf k (Suc i) hc"
      by (subst dedup_loop.simps) auto
    from "1.IH"(3) [OF lt False sj "1.prems"(2-5)] show ?thesis unfolding eq .
  next
    case v: True
    show ?thesis
    proof (cases "strncmp (img_id (md ! k)) (img_id (md ! i)) MAX_IMG_ID = 0")
      case True
      with lt v show ?thesis by (subst dedup_loop.simps) simp
    next
      case ns: False
      with "1.prems" have "i \<noteq> j" by auto
      with "1.prems" have sj: "Suc i \<le> j" by simp
      show ?thesis
      proof (cases "shaCompare (SHA (md ! k)) (SHA (md ! i)) = 0")
        case False
        with lt v ns have eq: "dedup_loop md maxf k i hc = dedup_loop md maxf k (Suc i) hc"
          by (subst dedup_loop.simps) simp
        from "1.IH"(2) [OF lt v ns False sj "1.prems"(2-5)] show ?thesis unfolding eq .
      next
        case True
        let ?md2 = "md[k := (md ! k)\<lparr>offset := offset (md ! i), size_arr := size_arr (md ! i)\<rparr>]"
        from True lt v ns have eq: "dedup_loop md maxf k i hc = dedup_loop ?md2 maxf k (Suc i) 1"
          by (subst dedup_loop.simps) simp
        have idk: "img_id (?md2 ! k) = img_id (md ! k)"
          by (cases "k < length md") (simp_all add: list_update_beyond)
        from "1.prems" have j2: "?md2 ! j = md ! j" by simp
        from "1.IH"(1) [OF lt v ns True sj "1.prems"(2,3)] "1.prems"(4,5) idk j2
        show ?thesis unfolding eq by simp
      qed
    qed
  qed
qed

lemma dedup_frame:
  assumes "do_name_and_content_dedup s k = (e, s')"
  shows "header s' = header s" "filep s' = filep s"
    "metadata s' = (metadata s)[k := (metadata s ! k)\<lparr>offset := offset (metadata s' ! k),
                                                       size_arr := size_arr (metadata s' ! k)\<rparr>]"
proof -
  show "header s' = header s" "filep s' = filep s"
    using assms by (auto simp: do_name_and_content_dedup_def split: if_splits prod.splits)
  show "metadata s' = (metadata s)[k := (metadata s ! k)\<lparr>offset := offset (metadata s' ! k),
                                                       size_arr := size_arr (metadata s' ! k)\<rparr>]"
  proof (cases "unat (max_files (header s)) \<le> k")
    case True
    with assms have "s' = s" by (simp add: do_name_and_content_dedup_def)
    then show ?thesis by simp
  next
    case False
    obtain e1 md1 hc1 where l: "dedup_loop (metadata s) (unat (max_files (header s))) k 0 0 = (e1, md1, hc1)"
      by (cases "dedup_loop (metadata s) (unat (max_files (header s))) k 0 0") auto
    note sh = dedup_loop_shape [OF l]
    show ?thesis
    proof (cases "e1 = ERR_NONE \<and> hc1 = 0")
      case False
      with assms l \<open>\<not> unat (max_files (header s)) \<le> k\<close> have "metadata s' = md1"
        by (auto simp: do_name_and_content_dedup_def split: if_splits)
      with sh show ?thesis by simp
    next
      case True
      with assms l \<open>\<not> unat (max_files (header s)) \<le> k\<close>
      have m: "metadata s' = md1[k := (md1 ! k)\<lparr>offset := res_set (offset (md1 ! k)) RES_ORIG 0\<rparr>]"
        by (auto simp: do_name_and_content_dedup_def split: if_splits)
      show ?thesis
      proof (cases "k < length (metadata s)")
        case True
        from sh True have a: "md1 ! k = (metadata s ! k)\<lparr>offset := offset (md1 ! k),
                                                       size_arr := size_arr (md1 ! k)\<rparr>"
          by (metis nth_list_update_eq)
        from m sh have b: "metadata s' = (metadata s)[k := (md1 ! k)\<lparr>offset := res_set (offset (md1 ! k)) RES_ORIG 0\<rparr>]"
          by (metis list_update_overwrite)
        from True b have c: "metadata s' ! k = (md1 ! k)\<lparr>offset := res_set (offset (md1 ! k)) RES_ORIG 0\<rparr>"
          by simp
        have "(md1 ! k)\<lparr>offset := res_set (offset (md1 ! k)) RES_ORIG 0\<rparr>
                = (metadata s ! k)\<lparr>offset := offset (metadata s' ! k), size_arr := size_arr (metadata s' ! k)\<rparr>"
          unfolding c by (subst a) simp
        with b show ?thesis by simp
      next
        case False
        with sh have "md1 = metadata s" by (simp add: list_update_beyond)
        with m False show ?thesis by (simp add: list_update_beyond)
      qed
    qed
  qed
qed


subsection \<open>C10: what a delete changes\<close>

text \<open>
  C10. A successful \<^verbatim>\<open>do_delete\<close> finds the first valid slot with the id and, in memory,
  changes only the \<^verbatim>\<open>is_valid\<close> flag of that slot (to \<^verbatim>\<open>EMPTY\<close>) and the fields
  \<^verbatim>\<open>num_files\<close> and \<^verbatim>\<open>imgst_version\<close> of the header. On disk the file keeps its length,
  the header region is the encoding of the new header, the region of the slot is the
  encoding of the slot with only the flag changed, and the region of every other slot
  and all bytes after the table are what they were.
\<close>

theorem do_delete_frame:
  assumes env: "env_ok E" and ok: "handle_ok E s" and del: "do_delete E iid s = (ERR_NONE, s')"
  shows "findMetadataIndex iid s = (ERR_NONE, snd (findMetadataIndex iid s))
     \<and> snd (findMetadataIndex iid s) < length (metadata s)
     \<and> img_id (metadata s ! snd (findMetadataIndex iid s)) = iid
     \<and> metadata s' = (metadata s)[snd (findMetadataIndex iid s) :=
                         (metadata s ! snd (findMetadataIndex iid s))\<lparr>is_valid := EMPTY\<rparr>]
     \<and> header s' = (header s)\<lparr>num_files := num_files (header s) - 1,
                                imgst_version := imgst_version (header s) + 1\<rparr>
     \<and> length (contents (filep s')) = length (contents (filep s))
     \<and> mode (filep s') = mode (filep s)
     \<and> disk_header E s' = enc_header E (header s')
     \<and> disk_slot E s' (snd (findMetadataIndex iid s))
          = enc_metadata E ((metadata s ! snd (findMetadataIndex iid s))\<lparr>is_valid := EMPTY\<rparr>)
     \<and> (\<forall>j. j \<noteq> snd (findMetadataIndex iid s) \<longrightarrow> disk_slot E s' j = disk_slot E s j)
     \<and> disk_heap E s' = disk_heap E s"
proof -
  from do_delete_ok [OF del] obtain idx where
    f: "findMetadataIndex iid s = (ERR_NONE, idx)" and
    md: "metadata s' = (metadata s)[idx := (metadata s ! idx)\<lparr>is_valid := EMPTY\<rparr>]" and
    hd: "header s' = (header s)\<lparr>num_files := num_files (header s) - 1,
                                imgst_version := imgst_version (header s) + 1\<rparr>" and
    ct: "contents (filep s') =
         overwrite (overwrite (contents (filep s)) (slot_pos E idx)
                      (enc_metadata E (((metadata s)[idx := (metadata s ! idx)\<lparr>is_valid := EMPTY\<rparr>]) ! idx)))
           0 (enc_header E ((header s)\<lparr>num_files := num_files (header s) - 1,
                                imgst_version := imgst_version (header s) + 1\<rparr>))" and
    mo: "mode (filep s') = mode (filep s)"
    by blast
  let ?c = "contents (filep s)"
  let ?m = "(metadata s ! idx)\<lparr>is_valid := EMPTY\<rparr>"
  let ?d1 = "enc_metadata E ?m"
  let ?d2 = "enc_header E (header s')"
  let ?p = "slot_pos E idx"
  let ?c1 = "overwrite ?c ?p ?d1"
  from findMetadataIndex_ok [OF f] have lt: "idx < unat (max_files (header s))"
    and iid: "img_id (metadata s ! idx) = iid" by simp_all
  from ok lt have len: "idx < length (metadata s)" by (simp add: handle_ok_def)
  from env have l1: "length ?d1 = sizeof_img_metadata E" and l2: "length ?d2 = sizeof_imgst_header E"
    by (simp_all add: env_ok_def)
  from slot_in_table [OF lt, of E] ok have fit: "?p + sizeof_img_metadata E \<le> length ?c"
    and fit': "?p + sizeof_img_metadata E \<le> table_end E s"
    by (simp_all add: handle_ok_def)
  have hp: "sizeof_imgst_header E \<le> ?p" by (rule slot_pos_ge_header)
  from ct len hd have ct': "contents (filep s') = overwrite ?c1 0 ?d2" by simp
  have lc1: "length ?c1 = length ?c" using fit l1 by (simp add: length_overwrite)
  have lc: "length (contents (filep s')) = length ?c"
    using lc1 l2 hp fit by (simp add: ct' length_overwrite)
  have dh: "disk_header E s' = ?d2"
    using region_overwrite_same [of ?d2 0 ?c1] l2 by (simp add: disk_header_def ct')
  have ds: "disk_slot E s' idx = ?d1"
  proof -
    have "take (sizeof_img_metadata E) (drop ?p (overwrite ?c1 0 ?d2))
            = take (sizeof_img_metadata E) (drop ?p ?c1)"
      using hp l2 by (intro region_overwrite_after) simp
    also have "\<dots> = ?d1" using region_overwrite_same [of ?d1 ?p ?c] l1 by simp
    finally show ?thesis by (simp add: disk_slot_def ct')
  qed
  have others: "disk_slot E s' j = disk_slot E s j" if "j \<noteq> idx" for j
  proof -
    have a: "take (sizeof_img_metadata E) (drop (slot_pos E j) (overwrite ?c1 0 ?d2))
            = take (sizeof_img_metadata E) (drop (slot_pos E j) ?c1)"
      using slot_pos_ge_header [of E j] l2 by (intro region_overwrite_after) simp
    have b: "take (sizeof_img_metadata E) (drop (slot_pos E j) ?c1)
            = take (sizeof_img_metadata E) (drop (slot_pos E j) ?c)"
    proof (cases "j < idx")
      case True
      from slot_pos_mono [OF True, of E] fit show ?thesis
        by (intro region_overwrite_before) simp_all
    next
      case False
      with that have "idx < j" by simp
      from slot_pos_mono [OF this, of E] l1 show ?thesis
        by (intro region_overwrite_after) simp
    qed
    from a b show ?thesis by (simp add: disk_slot_def ct')
  qed
  have heap: "disk_heap E s' = disk_heap E s"
  proof -
    have te: "table_end E s' = table_end E s" by (simp add: table_end_def hd)
    have "drop (table_end E s) (overwrite ?c1 0 ?d2) = drop (table_end E s) ?c1"
      using hp fit' l2 by (intro drop_overwrite_after) simp
    also have "\<dots> = drop (table_end E s) ?c"
      using fit' l1 by (intro drop_overwrite_after) simp
    finally show ?thesis by (simp add: disk_heap_def te ct')
  qed
  from f len iid md hd lc mo dh ds others heap show ?thesis by simp
qed

theorem do_delete_frame_witness:
  "env_ok example_env \<and> handle_ok example_env example_store
   \<and> fst (do_delete example_env ''a'' example_store) = ERR_NONE
   \<and> metadata (snd (do_delete example_env ''a'' example_store))
        = (metadata example_store)[0 := (metadata example_store ! 0)\<lparr>is_valid := EMPTY\<rparr>]
   \<and> disk_slot example_env (snd (do_delete example_env ''a'' example_store)) 1
        = disk_slot example_env example_store 1
   \<and> disk_heap example_env (snd (do_delete example_env ''a'' example_store)) = [7, 1]"
proof -
  let ?r = "do_delete example_env ''a'' example_store"
  have e: "env_ok example_env" by (simp add: env_ok_def example_env_def)
  have h: "handle_ok example_env example_store" by code_simp
  have ok: "fst ?r = ERR_NONE" by code_simp
  then have d: "?r = (ERR_NONE, snd ?r)" by (metis prod.collapse)
  have i: "snd (findMetadataIndex ''a'' example_store) = 0" by code_simp
  have hp: "disk_heap example_env example_store = [7, 1]" by code_simp
  from do_delete_frame [OF e h d] e h ok hp show ?thesis
    unfolding i by simp
qed

subsection \<open>C3: an insert under an id that is taken\<close>

text \<open>
  C3, as the code has it. In a store that is not full and whose \<^verbatim>\<open>num_files\<close> counts its
  valid slots, \<^verbatim>\<open>do_insert\<close> under the id of a valid slot fails with
  \<^verbatim>\<open>ERR_DUPLICATE_ID\<close>. The failed call leaves the header (so \<^verbatim>\<open>num_files\<close>) and the file
  (so the slot table on disk) unchanged, and in memory every slot but the free one it
  was preparing. The free slot stays invalid, but the call has already written the
  new id (the 128 bytes that \<^verbatim>\<open>memcpy\<close> copies) and digest into it, and the offset and
  size tables of a valid slot with the same digest when the scan met one before the
  name clash; every other field of the free slot is unchanged.
\<close>

theorem do_insert_duplicate_id:
  assumes inv: "store_inv s" and notfull: "num_files (header s) < max_files (header s)"
    and j: "j < length (metadata s)" "is_valid (metadata s ! j) \<noteq> EMPTY"
           "img_id (metadata s ! j) = iid"
    and res: "do_insert E buf iid s = (e, s')"
    and k: "k = do_insert_loop (metadata s) (unat (max_files (header s))) 0"
  shows "e = ERR_DUPLICATE_ID \<and> header s' = header s \<and> filep s' = filep s
     \<and> k < length (metadata s) \<and> is_valid (metadata s ! k) = EMPTY
     \<and> (\<exists>off sz. metadata s' = (metadata s)
          [k := (metadata s ! k)\<lparr>SHA := SHA256 E buf, img_id := memcpy_id iid,
                                  offset := off, size_arr := sz\<rparr>])"
proof -
  from free_slot_found [OF inv notfull] k
  have kl: "k < length (metadata s)" and kf: "is_valid (metadata s ! k) = 0" by simp_all
  from inv have len: "length (metadata s) = unat (max_files (header s))" by (simp add: store_inv_def)
  let ?md1 = "(metadata s)[k := (metadata s ! k)\<lparr>SHA := SHA256 E buf, img_id := memcpy_id iid\<rparr>]"
  let ?s1 = "s\<lparr>metadata := ?md1\<rparr>"
  from j kf have jk: "j \<noteq> k" by (auto simp: EMPTY_def)
  have "fst (dedup_loop ?md1 (unat (max_files (header s))) k 0 0) = ERR_DUPLICATE_ID"
  proof (rule dedup_loop_duplicate [of 0 j])
    show "j < unat (max_files (header s))" using j len by simp
    show "is_valid (?md1 ! j) \<noteq> 0" using j jk by (simp add: EMPTY_def)
    show "strncmp (img_id (?md1 ! k)) (img_id (?md1 ! j)) MAX_IMG_ID = 0"
      using j jk kl by (simp add: strncmp_def take_memcpy_id)
  qed (use jk in simp_all)
  then obtain md2 hc2 where l: "dedup_loop ?md1 (unat (max_files (header s))) k 0 0 = (ERR_DUPLICATE_ID, md2, hc2)"
    by (cases "dedup_loop ?md1 (unat (max_files (header s))) k 0 0") auto
  from kl len have nk: "\<not> unat (max_files (header s)) \<le> k" by simp
  from l nk have d: "do_name_and_content_dedup ?s1 k = (ERR_DUPLICATE_ID, ?s1\<lparr>metadata := md2\<rparr>)"
    by (simp add: do_name_and_content_dedup_def)
  from notfull have nf: "\<not> max_files (header s) \<le> num_files (header s)" by simp
  from res nf kl k d have r: "e = ERR_DUPLICATE_ID" "s' = ?s1\<lparr>metadata := md2\<rparr>"
    by (simp_all add: do_insert_def Let_def)
  from dedup_frame(3) [OF d] kl
  have "md2 = (metadata s)
          [k := (metadata s ! k)\<lparr>SHA := SHA256 E buf, img_id := memcpy_id iid,
                                  offset := offset (md2 ! k),
                                  size_arr := size_arr (md2 ! k)\<rparr>]"
    by simp
  then have "\<exists>off sz. md2 = (metadata s)
          [k := (metadata s ! k)\<lparr>SHA := SHA256 E buf, img_id := memcpy_id iid,
                                  offset := off, size_arr := sz\<rparr>]"
    by blast
  with r kl kf show ?thesis by (simp add: EMPTY_def)
qed

theorem do_insert_duplicate_id_witness:
  "fst (do_insert example_env [9] ''a'' example_store) = ERR_DUPLICATE_ID
   \<and> header (snd (do_insert example_env [9] ''a'' example_store)) = header example_store
   \<and> filep (snd (do_insert example_env [9] ''a'' example_store)) = filep example_store
   \<and> metadata (snd (do_insert example_env [9] ''a'' example_store)) ! 0 = metadata example_store ! 0
   \<and> is_valid (metadata (snd (do_insert example_env [9] ''a'' example_store)) ! 1) = EMPTY"
proof -
  let ?r = "do_insert example_env [9] ''a'' example_store"
  have inv: "store_inv example_store" by code_simp
  have nf: "num_files (header example_store) < max_files (header example_store)" by code_simp
  have j: "0 < length (metadata example_store)" "is_valid (metadata example_store ! 0) \<noteq> EMPTY"
      "img_id (metadata example_store ! 0) = ''a''" by code_simp+
  have k: "1 = do_insert_loop (metadata example_store) (unat (max_files (header example_store))) 0"
    by code_simp
  have r: "?r = (fst ?r, snd ?r)" by simp
  from do_insert_duplicate_id [OF inv nf j r k] show ?thesis
    by auto
qed


text \<open>
  The claim as written (the in-memory slot table, the free slot included, is unchanged
  by the failed call) fails on the two-slot example store: after the refused insert
  under the id \<^verbatim>\<open>a\<close> the free slot, whose id was empty, holds the id \<^verbatim>\<open>a\<close>.
\<close>

theorem do_insert_duplicate_id_changes_free_slot:
  "fst (do_insert example_env [9] ''a'' example_store) = ERR_DUPLICATE_ID
   \<and> img_id (metadata example_store ! 1) = []
   \<and> img_id (metadata (snd (do_insert example_env [9] ''a'' example_store)) ! 1) = ''a''"
  by code_simp

subsection \<open>The stages of do\_insert\<close>

lemma overwrite_at_end: "overwrite xs (length xs) d = xs @ d"
  by (simp add: overwrite_def)

lemma do_insert_append_frame:
  assumes "do_insert_append buf k s = (e, s')"
  shows "header s' = header s" "mode (filep s') = mode (filep s)"
    "\<exists>off. metadata s' = (metadata s)[k := (metadata s ! k)\<lparr>offset := off\<rparr>]"
proof -
  show "header s' = header s" "mode (filep s') = mode (filep s)"
    using assms
    by (auto simp: do_insert_append_def fseek_end_def fwrite_def Let_def split: if_splits)
  show "\<exists>off. metadata s' = (metadata s)[k := (metadata s ! k)\<lparr>offset := off\<rparr>]"
  proof (cases "res_get (offset (metadata s ! k)) RES_ORIG = 0")
    case True
    with assms have "metadata s' = (metadata s)[k := (metadata s ! k)
         \<lparr>offset := res_set (offset (metadata s ! k)) RES_ORIG (of_int (ftell (snd (fseek_end (filep s)))))\<rparr>]"
      by (auto simp: do_insert_append_def fseek_end_def fwrite_def Let_def split: if_splits)
    then show ?thesis by blast
  next
    case False
    with assms have "s' = s" by (simp add: do_insert_append_def)
    then have "metadata s' = (metadata s)[k := (metadata s ! k)\<lparr>offset := offset (metadata s ! k)\<rparr>]"
      by simp
    then show ?thesis by blast
  qed
qed

lemma do_insert_append_ok:
  assumes "do_insert_append buf k s = (ERR_NONE, s')"
  shows "res_get (offset (metadata s ! k)) RES_ORIG \<noteq> 0 \<Longrightarrow> s' = s"
    and "res_get (offset (metadata s ! k)) RES_ORIG = 0 \<Longrightarrow>
          buf \<noteq> [] \<and> mode (filep s) \<noteq> RB
          \<and> contents (filep s') = contents (filep s) @ buf
          \<and> metadata s' = (metadata s)[k := (metadata s ! k)
               \<lparr>offset := res_set (offset (metadata s ! k)) RES_ORIG
                            (of_nat (length (contents (filep s))))\<rparr>]"
  using assms
  by (auto simp: do_insert_append_def fseek_end_def fwrite_def ftell_def Let_def overwrite_at_end
           split: if_splits)

lemma updateMetadata_never_fails:
  assumes "env_ok E" "mode (filep s) \<noteq> RB" "idx < unat (max_files (header s))"
  shows "fst (updateMetadata E idx s) = ERR_NONE"
proof -
  from assms(1) have "enc_metadata E (metadata s ! idx) \<noteq> []"
    by (metis env_ok_def length_greater_0_conv)
  with assms show ?thesis
    by (simp add: updateMetadata_def fseek_set_nat fwrite_def rewind_def del: of_nat_add of_nat_mult)
qed

lemma updateHeader_never_fails:
  assumes "env_ok E" "mode (filep s) \<noteq> RB"
  shows "fst (updateHeader E s) = ERR_NONE"
proof -
  from assms(1) have "enc_header E (header s) \<noteq> []"
    by (metis env_ok_def length_greater_0_conv)
  with assms show ?thesis
    by (simp add: updateHeader_def fwrite_def rewind_def)
qed

lemma updateMetadata_mode:
  "updateMetadata E idx s = (e, s') \<Longrightarrow> mode (filep s') = mode (filep s)"
  by (auto simp: updateMetadata_def fseek_set_def fwrite_def rewind_def split: prod.splits if_splits)

lemma updateHeader_mode:
  "updateHeader E s = (e, s') \<Longrightarrow> mode (filep s') = mode (filep s)"
  by (auto simp: updateHeader_def fwrite_def rewind_def split: prod.splits if_splits)


lemma do_insert_finish_cases:
  assumes "do_insert_finish E buf k s = (e, s')"
  shows "mode (filep s') = mode (filep s)"
    and "(e = ERR_IMGLIB \<and> s' = s \<and> vips_jpegload_buffer E buf = None)
       \<or> (\<exists>v. vips_jpegload_buffer E buf = Some v
              \<and> header s' = (header s)\<lparr>imgst_version := imgst_version (header s) + 1,
                                         num_files := num_files (header s) + 1\<rparr>
              \<and> metadata s' = (metadata s)
                   [k := (metadata s ! k)
                      \<lparr>res_orig := (of_int (Xsize v), of_int (Ysize v)),
                       is_valid := NON_EMPTY,
                       size_arr := res_set (size_arr (metadata s ! k)) RES_ORIG
                                     (of_nat (length buf))\<rparr>])"
proof -
  show "mode (filep s') = mode (filep s)"
  proof (cases "vips_jpegload_buffer E buf")
    case None
    with assms show ?thesis by (simp add: do_insert_finish_def get_resolution_def)
  next
    case (Some v)
    let ?s1 = "s\<lparr>metadata := (metadata s)
                   [k := (metadata s ! k)
                      \<lparr>res_orig := (of_int (Xsize v), of_int (Ysize v)),
                       is_valid := NON_EMPTY,
                       size_arr := res_set (size_arr (metadata s ! k)) RES_ORIG
                                     (of_nat (length buf))\<rparr>],
                header := (header s)\<lparr>imgst_version := imgst_version (header s) + 1,
                                         num_files := num_files (header s) + 1\<rparr>\<rparr>"
    obtain e1 s1 where uh: "updateHeader E ?s1 = (e1, s1)" by (cases "updateHeader E ?s1") auto
    show ?thesis
    proof (cases "e1 = ERR_NONE")
      case False
      with assms Some uh have "s' = s1" by (simp add: do_insert_finish_def get_resolution_def Let_def)
      with updateHeader_mode [OF uh] show ?thesis by simp
    next
      case True
      with assms Some uh have "updateMetadata E k s1 = (e, s')"
        by (simp add: do_insert_finish_def get_resolution_def Let_def)
      from updateMetadata_mode [OF this] updateHeader_mode [OF uh] show ?thesis by simp
    qed
  qed
  show "(e = ERR_IMGLIB \<and> s' = s \<and> vips_jpegload_buffer E buf = None)
       \<or> (\<exists>v. vips_jpegload_buffer E buf = Some v
              \<and> header s' = (header s)\<lparr>imgst_version := imgst_version (header s) + 1,
                                         num_files := num_files (header s) + 1\<rparr>
              \<and> metadata s' = (metadata s)
                   [k := (metadata s ! k)
                      \<lparr>res_orig := (of_int (Xsize v), of_int (Ysize v)),
                       is_valid := NON_EMPTY,
                       size_arr := res_set (size_arr (metadata s ! k)) RES_ORIG
                                     (of_nat (length buf))\<rparr>])"
  proof (cases "vips_jpegload_buffer E buf")
    case None
    with assms show ?thesis by (simp add: do_insert_finish_def get_resolution_def)
  next
    case (Some v)
    let ?s1 = "s\<lparr>metadata := (metadata s)
                   [k := (metadata s ! k)
                      \<lparr>res_orig := (of_int (Xsize v), of_int (Ysize v)),
                       is_valid := NON_EMPTY,
                       size_arr := res_set (size_arr (metadata s ! k)) RES_ORIG
                                     (of_nat (length buf))\<rparr>],
                header := (header s)\<lparr>imgst_version := imgst_version (header s) + 1,
                                         num_files := num_files (header s) + 1\<rparr>\<rparr>"
    obtain e1 s1 where uh: "updateHeader E ?s1 = (e1, s1)" by (cases "updateHeader E ?s1") auto
    note f1 = updateHeader_frame [OF uh]
    show ?thesis
    proof (cases "e1 = ERR_NONE")
      case False
      with assms Some uh have "s' = s1" by (simp add: do_insert_finish_def get_resolution_def Let_def)
      with f1 Some show ?thesis by simp
    next
      case True
      with assms Some uh have "updateMetadata E k s1 = (e, s')"
        by (simp add: do_insert_finish_def get_resolution_def Let_def)
      from updateMetadata_frame [OF this] f1 Some show ?thesis by simp
    qed
  qed
qed

lemma do_insert_finish_ok:
  assumes "do_insert_finish E buf k s = (ERR_NONE, s')"
  shows "mode (filep s) \<noteq> RB" "k < unat (max_files (header s))"
    "contents (filep s') =
       overwrite (overwrite (contents (filep s)) 0 (enc_header E (header s')))
         (slot_pos E k) (enc_metadata E (metadata s' ! k))"
proof -
  from assms obtain v where v: "vips_jpegload_buffer E buf = Some v"
    by (cases "vips_jpegload_buffer E buf") (auto simp: do_insert_finish_def get_resolution_def)
  let ?s1 = "s\<lparr>metadata := (metadata s)
                   [k := (metadata s ! k)
                      \<lparr>res_orig := (of_int (Xsize v), of_int (Ysize v)),
                       is_valid := NON_EMPTY,
                       size_arr := res_set (size_arr (metadata s ! k)) RES_ORIG
                                     (of_nat (length buf))\<rparr>],
                header := (header s)\<lparr>imgst_version := imgst_version (header s) + 1,
                                         num_files := num_files (header s) + 1\<rparr>\<rparr>"
  obtain e1 s1 where uh: "updateHeader E ?s1 = (e1, s1)" by (cases "updateHeader E ?s1") auto
  with assms v have e1: "e1 = ERR_NONE" and um: "updateMetadata E k s1 = (ERR_NONE, s')"
    by (auto simp: do_insert_finish_def get_resolution_def Let_def split: if_splits)
  note a = updateHeader_ok [OF uh [unfolded e1]] and b = updateMetadata_ok [OF um]
  from a show "mode (filep s) \<noteq> RB" by simp
  from a b show "k < unat (max_files (header s))" by simp
  from a have c1: "contents (filep s1) = overwrite (contents (filep s)) 0 (enc_header E (header ?s1))"
    and h1: "header s1 = header ?s1" and m1: "metadata s1 = metadata ?s1" by simp_all
  from b have "contents (filep s') = overwrite (contents (filep s1)) (slot_pos E k) (enc_metadata E (metadata s1 ! k))"
    and "header s' = header s1" and "metadata s' = metadata s1"
    by (simp_all add: slot_pos_def)
  with c1 h1 m1 show "contents (filep s') =
       overwrite (overwrite (contents (filep s)) 0 (enc_header E (header s')))
         (slot_pos E k) (enc_metadata E (metadata s' ! k))"
    by simp
qed

lemma flags_update_same:
  "is_valid m = is_valid (md ! k) \<Longrightarrow> map is_valid (md[k := m]) = map is_valid md"
proof (cases "k < length md")
  case True
  assume "is_valid m = is_valid (md ! k)"
  with True have "(map is_valid md)[k := is_valid m] = map is_valid md"
    by (simp add: list_update_same_conv)
  then show ?thesis by (simp add: map_update)
next
  case False
  then show ?thesis by (simp add: list_update_beyond)
qed

lemma do_insert_okE:
  assumes r: "do_insert E buf iid s = (ERR_NONE, s')"
    and k: "k = do_insert_loop (metadata s) (unat (max_files (header s))) 0"
  obtains s2 s3 where
    "num_files (header s) < max_files (header s)" "k < length (metadata s)"
    "do_name_and_content_dedup
       (s\<lparr>metadata := (metadata s)[k := (metadata s ! k)\<lparr>SHA := SHA256 E buf, img_id := memcpy_id iid\<rparr>]\<rparr>) k
       = (ERR_NONE, s2)"
    "do_insert_append buf k s2 = (ERR_NONE, s3)"
    "do_insert_finish E buf k s3 = (ERR_NONE, s')"
proof -
  let ?s1 = "s\<lparr>metadata := (metadata s)[k := (metadata s ! k)\<lparr>SHA := SHA256 E buf, img_id := memcpy_id iid\<rparr>]\<rparr>"
  from r have nf: "num_files (header s) < max_files (header s)"
    by (auto simp: do_insert_def split: if_splits)
  from r nf k have kl: "k < length (metadata s)"
    by (auto simp: do_insert_def Let_def split: if_splits)
  obtain e2 s2 where d: "do_name_and_content_dedup ?s1 k = (e2, s2)"
    by (cases "do_name_and_content_dedup ?s1 k") auto
  obtain e3 s3 where a: "do_insert_append buf k s2 = (e3, s3)"
    by (cases "do_insert_append buf k s2") auto
  from r nf k kl d have e2: "e2 = ERR_NONE"
    by (auto simp: do_insert_def Let_def split: if_splits)
  from r nf k kl d a e2 have e3: "e3 = ERR_NONE"
    by (auto simp: do_insert_def Let_def split: if_splits)
  from r nf k kl d a e2 e3 have f: "do_insert_finish E buf k s3 = (ERR_NONE, s')"
    by (auto simp: do_insert_def Let_def split: if_splits)
  from that [OF nf kl d [unfolded e2] a [unfolded e3] f] show thesis .
qed

lemma do_insert_effect:
  assumes r: "do_insert E buf iid s = (e, s')"
    and k: "k = do_insert_loop (metadata s) (unat (max_files (header s))) 0"
  shows "mode (filep s') = mode (filep s)"
    and "(e \<noteq> ERR_NONE \<and> header s' = header s
            \<and> map is_valid (metadata s') = map is_valid (metadata s))
         \<or> (num_files (header s) < max_files (header s) \<and> k < length (metadata s)
            \<and> header s' = (header s)\<lparr>imgst_version := imgst_version (header s) + 1,
                                       num_files := num_files (header s) + 1\<rparr>
            \<and> map is_valid (metadata s') = (map is_valid (metadata s))[k := NON_EMPTY])"
    and "e = ERR_NONE \<Longrightarrow>
           num_files (header s) < max_files (header s) \<and> k < length (metadata s)
            \<and> header s' = (header s)\<lparr>imgst_version := imgst_version (header s) + 1,
                                       num_files := num_files (header s) + 1\<rparr>
            \<and> map is_valid (metadata s') = (map is_valid (metadata s))[k := NON_EMPTY]"
proof -
  let ?s1 = "s\<lparr>metadata := (metadata s)[k := (metadata s ! k)\<lparr>SHA := SHA256 E buf, img_id := memcpy_id iid\<rparr>]\<rparr>"
  let ?A = "e \<noteq> ERR_NONE \<and> header s' = header s
            \<and> map is_valid (metadata s') = map is_valid (metadata s)"
  let ?B = "num_files (header s) < max_files (header s) \<and> k < length (metadata s)
            \<and> header s' = (header s)\<lparr>imgst_version := imgst_version (header s) + 1,
                                       num_files := num_files (header s) + 1\<rparr>
            \<and> map is_valid (metadata s') = (map is_valid (metadata s))[k := NON_EMPTY]"
  have main: "mode (filep s') = mode (filep s) \<and> ((?A \<and> e \<noteq> ERR_NONE) \<or> ?B)"
  proof (cases "num_files (header s) < max_files (header s) \<and> k < length (metadata s)")
    case False
    with r k have "e \<noteq> ERR_NONE \<and> s' = s"
      by (auto simp: do_insert_def Let_def split: if_splits)
    then show ?thesis by simp
  next
    case True
    then have nf: "\<not> max_files (header s) \<le> num_files (header s)" and kl: "\<not> length (metadata s) \<le> k"
      by (simp_all add: not_le)
    obtain e2 s2 where d: "do_name_and_content_dedup ?s1 k = (e2, s2)"
      by (cases "do_name_and_content_dedup ?s1 k") auto
    note df = dedup_frame [OF d]
    have f1: "map is_valid (metadata ?s1) = map is_valid (metadata s)"
      by (simp add: flags_update_same)
    have "map is_valid (metadata s2) = map is_valid (metadata ?s1)"
      by (subst df(3)) (rule flags_update_same, simp)
    with f1 have f2: "map is_valid (metadata s2) = map is_valid (metadata s)" by simp
    have h2: "header s2 = header s" "mode (filep s2) = mode (filep s)" using df by simp_all
    show ?thesis
    proof (cases "e2 = ERR_NONE")
      case False
      with r k nf kl d have "e = e2" "s' = s2" by (simp_all add: do_insert_def Let_def)
      with False f2 h2 show ?thesis by simp
    next
      case e2: True
      obtain e3 s3 where a: "do_insert_append buf k s2 = (e3, s3)"
        by (cases "do_insert_append buf k s2") auto
      note af = do_insert_append_frame [OF a]
      from af(3) obtain off where m3: "metadata s3 = (metadata s2)[k := (metadata s2 ! k)\<lparr>offset := off\<rparr>]"
        by blast
      have "map is_valid (metadata s3) = map is_valid (metadata s2)"
        by (subst m3) (rule flags_update_same, simp)
      with f2 have f3: "map is_valid (metadata s3) = map is_valid (metadata s)" by simp
      have h3: "header s3 = header s" "mode (filep s3) = mode (filep s)" using af h2 by simp_all
      show ?thesis
      proof (cases "e3 = ERR_NONE")
        case False
        with r k nf kl d a e2 have "e = e3" "s' = s3" by (simp_all add: do_insert_def Let_def)
        with False f3 h3 show ?thesis by simp
      next
        case e3: True
        with r k nf kl d a e2 have fin: "do_insert_finish E buf k s3 = (e, s')"
          by (simp add: do_insert_def Let_def)
        note ff = do_insert_finish_cases [OF fin]
        from ff(2) show ?thesis
        proof
          assume "e = ERR_IMGLIB \<and> s' = s3 \<and> vips_jpegload_buffer E buf = None"
          with f3 h3 show ?thesis by simp
        next
          assume "\<exists>v. vips_jpegload_buffer E buf = Some v
              \<and> header s' = (header s3)\<lparr>imgst_version := imgst_version (header s3) + 1,
                                         num_files := num_files (header s3) + 1\<rparr>
              \<and> metadata s' = (metadata s3)
                   [k := (metadata s3 ! k)
                      \<lparr>res_orig := (of_int (Xsize v), of_int (Ysize v)),
                       is_valid := NON_EMPTY,
                       size_arr := res_set (size_arr (metadata s3 ! k)) RES_ORIG
                                     (of_nat (length buf))\<rparr>]"
          then obtain v :: VipsImage where hs: "header s' = (header s3)\<lparr>imgst_version := imgst_version (header s3) + 1,
                                         num_files := num_files (header s3) + 1\<rparr>"
            and ms: "metadata s' = (metadata s3)
                   [k := (metadata s3 ! k)
                      \<lparr>res_orig := (of_int (Xsize v), of_int (Ysize v)),
                       is_valid := NON_EMPTY,
                       size_arr := res_set (size_arr (metadata s3 ! k)) RES_ORIG
                                     (of_nat (length buf))\<rparr>]"
            by (elim exE conjE)
          have "map is_valid (metadata s') = (map is_valid (metadata s))[k := NON_EMPTY]"
            by (subst ms) (simp add: map_update f3)
          with hs h3 ff(1) True show ?thesis by simp
        qed
      qed
    qed
  qed
  from main show "mode (filep s') = mode (filep s)" by simp
  from main show "?A \<or> ?B" by blast
  from main show "e = ERR_NONE \<Longrightarrow> ?B" by blast
qed

subsection \<open>Materialising a variant and reading\<close>

lemma fseek_set_frame:
  "fseek_set f off = (ok, f') \<Longrightarrow> contents f' = contents f \<and> mode f' = mode f"
  by (auto simp: fseek_set_def split: if_splits)

lemma read_vips_frame:
  "read_vips_from_file E sz f = (e, img, f') \<Longrightarrow>
     contents f' = contents f \<and> mode f' = mode f \<and> (e = ERR_NONE \<longrightarrow> img \<noteq> None)"
proof (cases "fread sz 1 f")
  case (fields n buffer f1)
  assume r: "read_vips_from_file E sz f = (e, img, f')"
  from fread_frame [OF fields] have fr: "contents f1 = contents f \<and> mode f1 = mode f" .
  show ?thesis
  proof (cases "n = 1")
    case False
    with r fields fr show ?thesis by (simp add: read_vips_from_file_def)
  next
    case True
    show ?thesis
    proof (cases "vips_jpegload_buffer E buffer")
      case None
      with r fields fr True show ?thesis by (simp add: read_vips_from_file_def)
    next
      case (Some v)
      with r fields True have "img = Some v" "f' = f1"
        by (simp_all add: read_vips_from_file_def)
      with fr show ?thesis by simp
    qed
  qed
qed

lemma write_vips_cases:
  assumes "write_vips_to_file E img f = (e, n, f')"
  shows "mode f' = mode f"
    and "e \<noteq> ERR_NONE \<or> (\<exists>buffer. buffer \<noteq> [] \<and> n = length buffer \<and> mode f \<noteq> RB
           \<and> contents f' = overwrite (contents f) (pos f) buffer)"
  using assms
  by (auto simp: write_vips_to_file_def fwrite_def split: if_splits prod.splits option.splits)

lemma lazily_resize_frame:
  assumes r: "lazily_resize E rc s idx = (e, s')"
  shows "header s' = header s" "mode (filep s') = mode (filep s)"
    "\<exists>off sz. metadata s' = (metadata s)[idx := (metadata s ! idx)\<lparr>offset := off, size_arr := sz\<rparr>]"
proof -
  have "metadata s = (metadata s)[idx := (metadata s ! idx)\<lparr>offset := offset (metadata s ! idx), size_arr := size_arr (metadata s ! idx)\<rparr>]"
    by simp
  then have same: "\<exists>off sz. metadata s = (metadata s)[idx := (metadata s ! idx)\<lparr>offset := off, size_arr := sz\<rparr>]"
    by blast
  let ?G = "header s' = header s \<and> mode (filep s') = mode (filep s)
    \<and> (\<exists>off sz. metadata s' = (metadata s)[idx := (metadata s ! idx)\<lparr>offset := off, size_arr := sz\<rparr>])"
  have ?G
  proof (cases "rc = RES_ORIG \<or> (rc \<noteq> RES_SMALL \<and> rc \<noteq> RES_THUMB)
                \<or> validMetadataIndex idx s \<noteq> ERR_NONE
                \<or> res_get (offset (metadata s ! idx)) rc \<noteq> INIT_OFFSET")
    case True
    with r have "s' = s" by (auto simp: lazily_resize_def split: if_splits)
    with same show ?thesis by simp
  next
    case go: False
    obtain ok1 f1 where s1: "fseek_set (filep s) (sint (res_get (offset (metadata s ! idx)) RES_ORIG)) = (ok1, f1)"
      by (cases "fseek_set (filep s) (sint (res_get (offset (metadata s ! idx)) RES_ORIG))") auto
    obtain e2 img f2 where rv: "read_vips_from_file E (unat (res_get (size_arr (metadata s ! idx)) RES_ORIG)) f1 = (e2, img, f2)"
      by (cases "read_vips_from_file E (unat (res_get (size_arr (metadata s ! idx)) RES_ORIG)) f1") auto
    note a = fseek_set_frame [OF s1] and b = read_vips_frame [OF rv]
    show ?thesis
    proof (cases "e2 = ERR_NONE")
      case False
      with r go s1 rv have "s' = s\<lparr>filep := f2\<rparr>"
        by (auto simp: lazily_resize_def Let_def split: if_splits)
      with a b same show ?thesis by simp
    next
      case True
      let ?ratio = "shrink_value (the img)
                        (uint (res_resized (header s) ! nat (2 * rc)))
                        (uint (res_resized (header s) ! nat (2 * rc + 1)))"
      let ?f3 = "snd (fseek_end f2)"
      obtain e4 n f4 where wv: "write_vips_to_file E (vips_resize E (the img) ?ratio) ?f3 = (e4, n, f4)"
        by (cases "write_vips_to_file E (vips_resize E (the img) ?ratio) ?f3") auto
      note c = write_vips_cases [OF wv]
      have m3: "mode ?f3 = mode f2" by (simp add: fseek_end_def)
      show ?thesis
      proof (cases "e4 = ERR_NONE")
        case False
        with r go s1 rv True wv have "s' = s\<lparr>filep := f4\<rparr>"
          by (auto simp: lazily_resize_def Let_def fseek_end_def split: if_splits)
        with a b c m3 same show ?thesis by simp
      next
        case e4: True
        let ?s5 = "s\<lparr>filep := f4,
                      metadata := (metadata s)
                        [idx := (metadata s ! idx)
                           \<lparr>offset := res_set (offset (metadata s ! idx)) rc (of_int (ftell ?f3)),
                            size_arr := res_set (size_arr (metadata s ! idx)) rc (of_nat n)\<rparr>]\<rparr>"
        from r go s1 rv True wv e4 have um: "updateMetadata E idx ?s5 = (e, s')"
          by (auto simp: lazily_resize_def Let_def fseek_end_def split: if_splits)
        from updateMetadata_frame [OF um] updateMetadata_mode [OF um] a b c m3
        show ?thesis by simp blast
      qed
    qed
  qed
  then show "header s' = header s" "mode (filep s') = mode (filep s)"
    "\<exists>off sz. metadata s' = (metadata s)[idx := (metadata s ! idx)\<lparr>offset := off, size_arr := sz\<rparr>]"
    by blast+
qed

lemma do_read_frame:
  assumes r: "do_read E iid rc s = (e, b, z, s')"
  shows "header s' = header s" "mode (filep s') = mode (filep s)"
    "\<exists>idx off sz. metadata s' = (metadata s)[idx := (metadata s ! idx)\<lparr>offset := off, size_arr := sz\<rparr>]"
proof -
  have "metadata s = (metadata s)[0 := (metadata s ! 0)\<lparr>offset := offset (metadata s ! 0), size_arr := size_arr (metadata s ! 0)\<rparr>]"
    by simp
  then have same: "\<exists>idx off sz. metadata s = (metadata s)[idx := (metadata s ! idx)\<lparr>offset := off, size_arr := sz\<rparr>]"
    by blast
  let ?G = "header s' = header s \<and> mode (filep s') = mode (filep s)
    \<and> (\<exists>idx off sz. metadata s' = (metadata s)[idx := (metadata s ! idx)\<lparr>offset := off, size_arr := sz\<rparr>])"
  have ?G
  proof (cases "(rc \<noteq> RES_SMALL \<and> rc \<noteq> RES_THUMB \<and> rc \<noteq> RES_ORIG) \<or> fst (findMetadataIndex iid s) \<noteq> ERR_NONE")
    case True
    with r have "s' = s"
      by (cases "findMetadataIndex iid s") (auto simp: do_read_def split: if_splits)
    with same show ?thesis by simp
  next
    case go: False
    obtain idx where f: "findMetadataIndex iid s = (ERR_NONE, idx)"
      using go by (cases "findMetadataIndex iid s") auto
    obtain e1 s1 where lr: "(if res_get (offset (metadata s ! idx)) rc = INIT_OFFSET
                     then lazily_resize E rc s idx else (ERR_NONE, s)) = (e1, s1)"
      by (cases "(if res_get (offset (metadata s ! idx)) rc = INIT_OFFSET
                     then lazily_resize E rc s idx else (ERR_NONE, s))") auto
    have fr1: "header s1 = header s \<and> mode (filep s1) = mode (filep s)
       \<and> (\<exists>off sz. metadata s1 = (metadata s)[idx := (metadata s ! idx)\<lparr>offset := off, size_arr := sz\<rparr>])"
    proof (cases "res_get (offset (metadata s ! idx)) rc = INIT_OFFSET")
      case True
      with lr have "lazily_resize E rc s idx = (e1, s1)" by simp
      from lazily_resize_frame [OF this] show ?thesis by simp
    next
      case False
      with lr have "s1 = s" by simp
      moreover have "metadata s = (metadata s)[idx := (metadata s ! idx)\<lparr>offset := offset (metadata s ! idx), size_arr := size_arr (metadata s ! idx)\<rparr>]"
        by simp
      ultimately show ?thesis by blast
    qed
    show ?thesis
    proof (cases "e1 = ERR_NONE")
      case False
      with r go f lr have "s' = s1" by (auto simp: do_read_def split: if_splits)
      with fr1 show ?thesis by blast
    next
      case True
      obtain ok f1 where sk: "fseek_set (filep s1) (sint (res_get (offset (metadata s1 ! idx)) rc)) = (ok, f1)"
        by (cases "fseek_set (filep s1) (sint (res_get (offset (metadata s1 ! idx)) rc))") auto
      obtain n bb f2 where rd: "fread (unat (res_get (size_arr (metadata s1 ! idx)) rc)) 1 f1 = (n, bb, f2)"
        by (cases "fread (unat (res_get (size_arr (metadata s1 ! idx)) rc)) 1 f1") auto
      from r go f lr True sk rd have "s' = s1\<lparr>filep := f2\<rparr>"
        by (auto simp: do_read_def Let_def split: if_splits)
      with fr1 fseek_set_frame [OF sk] fread_frame [OF rd] show ?thesis by simp blast
    qed
  qed
  then show "header s' = header s" "mode (filep s') = mode (filep s)"
    "\<exists>idx off sz. metadata s' = (metadata s)[idx := (metadata s ! idx)\<lparr>offset := off, size_arr := sz\<rparr>]"
    by blast+
qed


subsection \<open>C9: the version counter\<close>

text \<open>
  C9, as the code has it. A successful \<^verbatim>\<open>do_insert\<close> and a successful \<^verbatim>\<open>do_delete\<close> each
  add one to \<^verbatim>\<open>imgst_version\<close> (a \<^verbatim>\<open>uint32_t\<close>, so the addition is modulo \<open>2 ^ 32\<close>).
  Materialising a variant does not: whatever \<^verbatim>\<open>lazily_resize\<close> returns, and whatever
  a \<^verbatim>\<open>do_read\<close> that calls it returns, the header in memory is the one before the call,
  although a successful materialisation rewrites the slot in memory and on disk.
\<close>

theorem version_bump:
  "(do_insert E image_buffer iid s = (ERR_NONE, s1)
      \<longrightarrow> imgst_version (header s1) = imgst_version (header s) + 1)
   \<and> (do_delete E iid s = (ERR_NONE, s2)
      \<longrightarrow> imgst_version (header s2) = imgst_version (header s) + 1)
   \<and> (lazily_resize E res_code s idx = (e3, s3) \<longrightarrow> header s3 = header s)
   \<and> (do_read E iid resolution s = (e4, buffer, image_size, s4) \<longrightarrow> header s4 = header s)"
proof (intro conjI impI)
  assume "do_insert E image_buffer iid s = (ERR_NONE, s1)"
  from do_insert_effect(3) [OF this refl] show "imgst_version (header s1) = imgst_version (header s) + 1"
    by simp
next
  assume "do_delete E iid s = (ERR_NONE, s2)"
  from do_delete_ok [OF this] show "imgst_version (header s2) = imgst_version (header s) + 1"
    by auto
next
  assume "lazily_resize E res_code s idx = (e3, s3)"
  from lazily_resize_frame(1) [OF this] show "header s3 = header s" .
next
  assume "do_read E iid resolution s = (e4, buffer, image_size, s4)"
  from do_read_frame(1) [OF this] show "header s4 = header s" .
qed

theorem version_bump_witness:
  "imgst_version (header example_store) = 1
   \<and> imgst_version (header (snd (do_insert example_env [9] ''b'' example_store))) = 2
   \<and> imgst_version (header (snd (do_delete example_env ''a'' example_store))) = 2
   \<and> header (snd (lazily_resize example_env RES_THUMB example_store 0)) = header example_store
   \<and> header (snd (snd (snd (do_read example_env ''a'' RES_SMALL example_store)))) = header example_store"
proof -
  let ?i = "do_insert example_env [9] ''b'' example_store"
  let ?d = "do_delete example_env ''a'' example_store"
  let ?l = "lazily_resize example_env RES_THUMB example_store 0"
  let ?r = "do_read example_env ''a'' RES_SMALL example_store"
  have v: "imgst_version (header example_store) = 1" by code_simp
  have "fst ?i = ERR_NONE" by code_simp
  then have i: "?i = (ERR_NONE, snd ?i)" by (metis prod.collapse)
  have "fst ?d = ERR_NONE" by code_simp
  then have d: "?d = (ERR_NONE, snd ?d)" by (metis prod.collapse)
  have l: "?l = (fst ?l, snd ?l)" by simp
  have r: "?r = (fst ?r, fst (snd ?r), fst (snd (snd ?r)), snd (snd (snd ?r)))" by simp
  note vb = version_bump [where E = example_env and image_buffer = "[9]" and iid = "''a''"
                        and s = example_store and ?s1.0 = "snd ?i"
                        and ?s2.0 = "snd ?d" and res_code = RES_THUMB and idx = 0
                        and ?e3.0 = "fst ?l" and ?s3.0 = "snd ?l" and resolution = RES_SMALL
                        and ?e4.0 = "fst ?r" and buffer = "fst (snd ?r)"
                        and image_size = "fst (snd (snd ?r))" and ?s4.0 = "snd (snd (snd ?r))"]
  note vi = version_bump [where E = example_env and image_buffer = "[9]" and iid = "''b''"
                        and s = example_store and ?s1.0 = "snd ?i"]
  from vi i have a: "imgst_version (header (snd ?i)) = imgst_version (header example_store) + 1"
    by blast
  from vb d have b: "imgst_version (header (snd ?d)) = imgst_version (header example_store) + 1"
    by blast
  from vb l have c: "header (snd ?l) = header example_store"
    by blast
  from vb r have e: "header (snd (snd (snd ?r))) = header example_store"
    by blast
  from a b c e v show ?thesis by simp
qed


text \<open>
  The claim as written (variant materialisation bumps the version as well) fails on
  the example store: materialising the small variant of its image appends one byte to
  the file and records offset 6 in the slot, and the version stays 1.
\<close>

theorem materialization_keeps_version:
  "fst (lazily_resize example_env RES_SMALL example_store 0) = ERR_NONE
   \<and> res_get (offset (metadata example_store ! 0)) RES_SMALL = 0
   \<and> res_get (offset (metadata (snd (lazily_resize example_env RES_SMALL example_store 0)) ! 0))
        RES_SMALL = 6
   \<and> contents (filep example_store) = [1, 2, 1, 0, 7, 1]
   \<and> contents (filep (snd (lazily_resize example_env RES_SMALL example_store 0)))
        = [1, 2, 1, 0, 7, 1, 7]
   \<and> imgst_version (header example_store) = 1
   \<and> imgst_version (header (snd (lazily_resize example_env RES_SMALL example_store 0))) = 1"
  by code_simp

subsection \<open>Creating a store, counting valid slots\<close>

lemma do_create_loop_frame:
  "do_create_loop E s i n = (e, s', n') \<Longrightarrow>
     header s' = header s \<and> mode (filep s') = mode (filep s)
     \<and> (e = ERR_NONE \<longrightarrow> metadata s' = metadata s)"
proof (induction E s i n rule: do_create_loop.induct)
  case (1 E s i n)
  show ?case
  proof (cases "i < unat (max_files (header s))")
    case False
    with "1.prems" have "s' = s" by (subst (asm) do_create_loop.simps) simp
    then show ?thesis by simp
  next
    case lt: True
    obtain e1 s1 where um: "updateMetadata E i s = (e1, s1)" by (cases "updateMetadata E i s") auto
    note fr = updateMetadata_frame [OF um] updateMetadata_mode [OF um]
    show ?thesis
    proof (cases "e1 = ERR_NONE")
      case False
      with "1.prems" lt um have "e = e1" "s' = s1\<lparr>metadata := []\<rparr>"
        by (subst (asm) do_create_loop.simps, simp)+
      with fr False show ?thesis by simp
    next
      case True
      with "1.prems" lt um have r: "do_create_loop E (s\<lparr>filep := filep s1\<rparr>) (Suc i) (n + 1) = (e, s', n')"
        by (subst (asm) do_create_loop.simps) simp
      from "1.IH" [OF lt um [symmetric] _ r] True fr show ?thesis by simp
    qed
  qed
qed

lemma do_create_ok:
  assumes "do_create E b s0 = (ERR_NONE, s)"
  shows "mode (filep s) = WB" "num_files (header s) = 0"
    "max_files (header s) = max_files (header s0)"
    "metadata s = replicate (unat (max_files (header s0))) zero_metadata"
proof -
  let ?h = "(header s0)\<lparr>imgst_name := take MAX_IMGST_NAME CAT_TXT,
                          imgst_version := INIT_VER, num_files := INIT_NB_FILES\<rparr>"
  let ?s0 = "s0\<lparr>header := ?h, metadata := replicate (unat (max_files ?h)) zero_metadata\<rparr>"
  let ?s0' = "?s0\<lparr>filep := \<lparr>contents = [], pos = 0, mode = WB\<rparr>\<rparr>"
  from assms have b: b by (auto simp: do_create_def Let_def split: if_splits)
  obtain e1 s1 where uh: "updateHeader E ?s0' = (e1, s1)" by (cases "updateHeader E ?s0'") auto
  obtain e2 s2 n2 where lp: "do_create_loop E s1 0 1 = (e2, s2, n2)"
    by (cases "do_create_loop E s1 0 1") auto
  from assms b uh have e1: "e1 = ERR_NONE"
    by (auto simp: do_create_def Let_def split: if_splits)
  from assms b uh lp e1 have e2: "e2 = ERR_NONE" and s: "s = s2"
    by (auto simp: do_create_def Let_def split: if_splits)
  note f1 = updateHeader_frame [OF uh] updateHeader_mode [OF uh]
  note f2 = do_create_loop_frame [OF lp]
  from f1 f2 e2 s show "mode (filep s) = WB" "num_files (header s) = 0"
    "max_files (header s) = max_files (header s0)"
    "metadata s = replicate (unat (max_files (header s0))) zero_metadata"
    by (simp_all add: INIT_NB_FILES_def)
qed

lemma count_valid_replicate_zero: "count_valid (replicate n zero_metadata) = 0"
  by (simp add: count_valid_def zero_metadata_def EMPTY_def)

lemma count_valid_flags:
  "count_valid md = length (filter (\<lambda>v. v \<noteq> EMPTY) (map is_valid md))"
  by (simp add: count_valid_def filter_map comp_def)

lemma count_filter_update:
  "k < length fl \<Longrightarrow>
     length (filter P (fl[k := v])) + (if P (fl ! k) then 1 else 0)
       = length (filter P fl) + (if P v then 1 else 0)"
proof (induction fl arbitrary: k)
  case Nil
  then show ?case by simp
next
  case (Cons a fl)
  then show ?case by (cases k) auto
qed

lemma count_valid_set_valid:
  assumes "k < length md" "is_valid (md ! k) = EMPTY"
    "map is_valid md' = (map is_valid md)[k := NON_EMPTY]"
  shows "count_valid md' = count_valid md + 1"
proof -
  from count_filter_update [of k "map is_valid md" "\<lambda>v. v \<noteq> EMPTY" NON_EMPTY] assms
  show ?thesis by (simp add: count_valid_flags NON_EMPTY_def EMPTY_def)
qed

lemma count_valid_set_empty:
  assumes "k < length md" "is_valid (md ! k) \<noteq> EMPTY"
  shows "count_valid (md[k := (md ! k)\<lparr>is_valid := EMPTY\<rparr>]) + 1 = count_valid md"
proof -
  from count_filter_update [of k "map is_valid md" "\<lambda>v. v \<noteq> EMPTY" EMPTY] assms
  show ?thesis by (simp add: count_valid_flags map_update)
qed

lemma count_valid_le: "count_valid md \<le> length md"
  by (simp add: count_valid_def)

lemma do_delete_fails_early:
  assumes env: "env_ok E" and m: "mode (filep s) \<noteq> RB"
    and r: "do_delete E iid s = (e, s')" and e: "e \<noteq> ERR_NONE"
  shows "s' = s"
proof (cases "num_files (header s) \<le> 0 \<or> fst (findMetadataIndex iid s) \<noteq> ERR_NONE")
  case True
  with r show ?thesis
    by (cases "findMetadataIndex iid s") (auto simp: do_delete_def split: if_splits)
next
  case False
  then obtain idx where f: "findMetadataIndex iid s = (ERR_NONE, idx)"
    by (cases "findMetadataIndex iid s") auto
  let ?s1 = "s\<lparr>metadata := (metadata s)[idx := (metadata s ! idx)\<lparr>is_valid := EMPTY\<rparr>]\<rparr>"
  obtain e2 s2 where um: "updateMetadata E idx ?s1 = (e2, s2)"
    by (cases "updateMetadata E idx ?s1") auto
  from findMetadataIndex_ok(1) [OF f] have lt: "idx < unat (max_files (header ?s1))" by simp
  from updateMetadata_never_fails [OF env _ lt] m um have e2: "e2 = ERR_NONE" by simp
  let ?s3 = "s2\<lparr>header := (header s2)
                              \<lparr>num_files := num_files (header s2) - 1,
                               imgst_version := imgst_version (header s2) + 1\<rparr>\<rparr>"
  from updateMetadata_mode [OF um] m have "mode (filep ?s3) \<noteq> RB" by simp
  from updateHeader_never_fails [OF env this] have "fst (updateHeader E ?s3) = ERR_NONE" .
  with r False f um e2 have "e = ERR_NONE"
    by (auto simp: do_delete_def Let_def split: if_splits)
  with e show ?thesis by simp
qed

lemma unat_succ_below:
  fixes a b :: "32 word"
  assumes "a < b"
  shows "unat (a + 1) = unat a + 1"
proof -
  from assms have "unat a < unat b" by (simp add: word_less_nat_alt)
  moreover have "unat b < 2 ^ 32" using unsigned_less [of b, where 'a = nat] by simp
  ultimately have "unat a + unat (1 :: 32 word) < 2 ^ LENGTH(32)" by simp
  then have "unat (a + 1) = unat a + unat (1 :: 32 word)" by (simp only: unat_add_lem [THEN iffD1])
  then show ?thesis by simp
qed

lemma insert_keeps_inv:
  assumes inv: "store_inv s" and r: "do_insert E buf iid s = (e, s')"
  shows "store_inv s'" "mode (filep s') = mode (filep s)"
    "e = ERR_NONE \<Longrightarrow>
       unat (num_files (header s')) = unat (num_files (header s)) + 1
       \<and> count_valid (metadata s') = count_valid (metadata s) + 1
       \<and> max_files (header s') = max_files (header s)"
proof -
  let ?k = "do_insert_loop (metadata s) (unat (max_files (header s))) 0"
  note ef = do_insert_effect [OF r refl]
  from inv have len: "length (metadata s) = unat (max_files (header s))"
    and cnt: "unat (num_files (header s)) = count_valid (metadata s)"
    by (simp_all add: store_inv_def)
  show "mode (filep s') = mode (filep s)" by (rule ef(1))
  have B: "store_inv s' \<and> unat (num_files (header s')) = unat (num_files (header s)) + 1
       \<and> count_valid (metadata s') = count_valid (metadata s) + 1
       \<and> max_files (header s') = max_files (header s)"
    if b: "num_files (header s) < max_files (header s)" "?k < length (metadata s)"
      "header s' = (header s)\<lparr>imgst_version := imgst_version (header s) + 1,
                                       num_files := num_files (header s) + 1\<rparr>"
      "map is_valid (metadata s') = (map is_valid (metadata s))[?k := NON_EMPTY]"
  proof -
    from b(2) len insert_loop_free [of "metadata s" "unat (max_files (header s))" 0]
    have free: "is_valid (metadata s ! ?k) = EMPTY" by (simp add: EMPTY_def)
    from count_valid_set_valid [OF b(2) free b(4)]
    have c: "count_valid (metadata s') = count_valid (metadata s) + 1" .
    from unat_succ_below [OF b(1)] b(3)
    have n: "unat (num_files (header s')) = unat (num_files (header s)) + 1" by simp
    from b(4) have "length (map is_valid (metadata s')) = length (map is_valid (metadata s))"
      by simp
    then have l: "length (metadata s') = length (metadata s)" by simp
    from b(3) have m: "max_files (header s') = max_files (header s)" by simp
    from c n l m len cnt show ?thesis by (simp add: store_inv_def)
  qed
  from ef(2) show "store_inv s'"
  proof
    assume a: "e \<noteq> ERR_NONE \<and> header s' = header s
            \<and> map is_valid (metadata s') = map is_valid (metadata s)"
    then have "length (map is_valid (metadata s')) = length (map is_valid (metadata s))"
      by simp
    then have "length (metadata s') = length (metadata s)" by simp
    with a len cnt show ?thesis by (simp add: store_inv_def count_valid_flags)
  next
    assume "num_files (header s) < max_files (header s) \<and> ?k < length (metadata s)
            \<and> header s' = (header s)\<lparr>imgst_version := imgst_version (header s) + 1,
                                       num_files := num_files (header s) + 1\<rparr>
            \<and> map is_valid (metadata s') = (map is_valid (metadata s))[?k := NON_EMPTY]"
    with B show ?thesis by blast
  qed
  show "unat (num_files (header s')) = unat (num_files (header s)) + 1
       \<and> count_valid (metadata s') = count_valid (metadata s) + 1
       \<and> max_files (header s') = max_files (header s)" if "e = ERR_NONE"
    using ef(3) [OF that] B by blast
qed

lemma delete_keeps_inv:
  assumes env: "env_ok E" and inv: "store_inv s" and m: "mode (filep s) \<noteq> RB"
    and r: "do_delete E iid s = (e, s')"
  shows "store_inv s'" "mode (filep s') = mode (filep s)"
    "e = ERR_NONE \<Longrightarrow>
       unat (num_files (header s')) + 1 = unat (num_files (header s))
       \<and> count_valid (metadata s') + 1 = count_valid (metadata s)
       \<and> max_files (header s') = max_files (header s)"
proof -
  from inv have len: "length (metadata s) = unat (max_files (header s))"
    and cnt: "unat (num_files (header s)) = count_valid (metadata s)"
    by (simp_all add: store_inv_def)
  have B: "store_inv s' \<and> mode (filep s') = mode (filep s)
       \<and> unat (num_files (header s')) + 1 = unat (num_files (header s))
       \<and> count_valid (metadata s') + 1 = count_valid (metadata s)
       \<and> max_files (header s') = max_files (header s)" if e: "e = ERR_NONE"
  proof -
    from do_delete_ok [OF r [unfolded e]] obtain idx where
      f: "findMetadataIndex iid s = (ERR_NONE, idx)" and nz: "num_files (header s) \<noteq> 0" and
      md: "metadata s' = (metadata s)[idx := (metadata s ! idx)\<lparr>is_valid := EMPTY\<rparr>]" and
      hd: "header s' = (header s)\<lparr>num_files := num_files (header s) - 1,
                                imgst_version := imgst_version (header s) + 1\<rparr>" and
      mo: "mode (filep s') = mode (filep s)"
      by blast
    from findMetadataIndex_ok [OF f] len have il: "idx < length (metadata s)"
      and iv: "is_valid (metadata s ! idx) \<noteq> EMPTY" by simp_all
    from count_valid_set_empty [OF il iv] md
    have c: "count_valid (metadata s') + 1 = count_valid (metadata s)" by simp
    from nz have "unat (num_files (header s)) \<noteq> 0" by (simp add: unat_eq_zero)
    with unat_minus_one [OF nz] hd
    have n: "unat (num_files (header s')) + 1 = unat (num_files (header s))" by simp
    from md have l: "length (metadata s') = length (metadata s)" by simp
    from hd have mx: "max_files (header s') = max_files (header s)" by simp
    from c n l mx len cnt mo show ?thesis by (simp add: store_inv_def)
  qed
  have A: "store_inv s' \<and> mode (filep s') = mode (filep s)"
  proof (cases "e = ERR_NONE")
    case True
    with B show ?thesis by simp
  next
    case False
    from do_delete_fails_early [OF env m r False] inv show ?thesis by simp
  qed
  from A show "store_inv s'" "mode (filep s') = mode (filep s)" by simp_all
  show "unat (num_files (header s')) + 1 = unat (num_files (header s))
       \<and> count_valid (metadata s') + 1 = count_valid (metadata s)
       \<and> max_files (header s') = max_files (header s)" if "e = ERR_NONE"
    using B [OF that] by simp
qed

lemma read_keeps_inv:
  assumes inv: "store_inv s" and r: "do_read E iid rc s = (e, b, z, s')"
  shows "store_inv s'" "mode (filep s') = mode (filep s)"
proof -
  note fr = do_read_frame [OF r]
  from fr(3) obtain idx off sz where
    md: "metadata s' = (metadata s)[idx := (metadata s ! idx)\<lparr>offset := off, size_arr := sz\<rparr>]"
    by blast
  have "map is_valid (metadata s') = map is_valid (metadata s)"
    by (subst md) (rule flags_update_same, simp)
  moreover from md have "length (metadata s') = length (metadata s)" by simp
  ultimately show "store_inv s'" using inv fr(1) by (simp add: store_inv_def count_valid_flags)
  show "mode (filep s') = mode (filep s)" by (rule fr(2))
qed

lemma reachable_inv:
  assumes env: "env_ok E" and r: "reachable E s"
  shows "store_inv s \<and> mode (filep s) \<noteq> RB"
  using r
proof (induction rule: reachable.induct)
  case (created fopen_ok s0 s)
  from do_create_ok [OF created] show ?case
    by (simp add: store_inv_def count_valid_replicate_zero)
next
  case (inserted s image_buffer iid e s')
  with insert_keeps_inv(1,2) [OF _ inserted(2)] show ?case by simp
next
  case (deleted s iid e s')
  with delete_keeps_inv(1,2) [OF env _ _ deleted(2)] show ?case by simp
next
  case (read s iid resolution e buffer image_size s')
  with read_keeps_inv [OF _ read(2)] show ?case by simp
qed


subsection \<open>C5: num\_files counts the valid slots\<close>

text \<open>
  C5. On a platform where both structs have a positive size, every handle reachable
  from a successful \<^verbatim>\<open>do_create\<close> by calls of \<^verbatim>\<open>do_insert\<close>, \<^verbatim>\<open>do_delete\<close> and \<^verbatim>\<open>do_read\<close>
  (successful or not) has \<^verbatim>\<open>num_files <= max_files\<close>, \<^verbatim>\<open>num_files\<close> equal to the number of
  slots whose valid flag is set, and \<^verbatim>\<open>max_files\<close> slots. From such a handle each
  successful insert raises \<^verbatim>\<open>num_files\<close> and the number of valid slots by exactly one,
  and each successful delete lowers both by exactly one. (The streams of the model
  fail only where the C library must; on the handle of \<^verbatim>\<open>do_create\<close> no write does.)
\<close>

theorem reachable_num_files:
  assumes env: "env_ok E" and r: "reachable E s"
  shows "num_files (header s) \<le> max_files (header s)
     \<and> unat (num_files (header s)) = count_valid (metadata s)
     \<and> length (metadata s) = unat (max_files (header s))
     \<and> (\<forall>image_buffer iid s'. do_insert E image_buffer iid s = (ERR_NONE, s') \<longrightarrow>
           unat (num_files (header s')) = unat (num_files (header s)) + 1
           \<and> count_valid (metadata s') = count_valid (metadata s) + 1
           \<and> max_files (header s') = max_files (header s))
     \<and> (\<forall>iid s'. do_delete E iid s = (ERR_NONE, s') \<longrightarrow>
           unat (num_files (header s')) + 1 = unat (num_files (header s))
           \<and> count_valid (metadata s') + 1 = count_valid (metadata s)
           \<and> max_files (header s') = max_files (header s))"
proof -
  from reachable_inv [OF env r] have inv: "store_inv s" and m: "mode (filep s) \<noteq> RB" by simp_all
  from inv have len: "length (metadata s) = unat (max_files (header s))"
    and cnt: "unat (num_files (header s)) = count_valid (metadata s)"
    by (simp_all add: store_inv_def)
  from count_valid_le [of "metadata s"] len cnt
  have le: "num_files (header s) \<le> max_files (header s)" by (simp add: word_le_nat_alt)
  from le cnt len insert_keeps_inv(3) [OF inv] delete_keeps_inv(3) [OF env inv m]
  show ?thesis by blast
qed

theorem reachable_num_files_witness:
  "env_ok example_env
   \<and> reachable example_env
        (snd (do_insert example_env [7, 1] ''a'' (snd (do_create example_env True (example_new 2)))))
   \<and> count_valid (metadata
        (snd (do_insert example_env [7, 1] ''a'' (snd (do_create example_env True (example_new 2)))))) = 1
   \<and> unat (num_files (header (snd (do_delete example_env ''a''
        (snd (do_insert example_env [7, 1] ''a'' (snd (do_create example_env True (example_new 2))))))))) + 1 = 1"
proof -
  let ?c = "do_create example_env True (example_new 2)"
  let ?i = "do_insert example_env [7, 1] ''a'' (snd ?c)"
  let ?d = "do_delete example_env ''a'' (snd ?i)"
  have e: "env_ok example_env" by (simp add: env_ok_def example_env_def)
  have "fst ?c = ERR_NONE" by code_simp
  then have c: "?c = (ERR_NONE, snd ?c)" by (metis prod.collapse)
  have i: "?i = (fst ?i, snd ?i)" by simp
  have r: "reachable example_env (snd ?i)"
    by (rule reachable.inserted [OF reachable.created [OF c] i])
  have n: "unat (num_files (header (snd ?i))) = 1" by code_simp
  have "fst ?d = ERR_NONE" by code_simp
  then have d: "?d = (ERR_NONE, snd ?d)" by (metis prod.collapse)
  note t = reachable_num_files [OF e r]
  from t n have a: "count_valid (metadata (snd ?i)) = 1" by simp
  from t d have "unat (num_files (header (snd ?d))) + 1 = unat (num_files (header (snd ?i)))"
    by blast
  with n have b: "unat (num_files (header (snd ?d))) + 1 = 1" by simp
  from e r a b show ?thesis by simp
qed

subsection \<open>Offsets, and looking a slot up after its tables changed\<close>

lemma res_get_set: "res_get (res_set a r v) r = v"
  by (cases a) simp


lemma res_get_set_other: "r \<noteq> r' \<Longrightarrow> r \<in> {0, 1, 2} \<Longrightarrow> r' \<in> {0, 1, 2} \<Longrightarrow> res_get (res_set a r v) r' = res_get a r'"
  by (cases a) auto

lemma sint_of_nat_64:
  "n < 2 ^ 63 \<Longrightarrow> sint (of_nat n :: 64 word) = int n"
proof -
  assume n: "n < 2 ^ 63"
  have "sint (of_nat n :: 64 word) = signed_take_bit (LENGTH(64) - Suc 0) (int n)"
    using signed_of_nat [of n, where 'a = int and 'b = 64] by simp
  also have "\<dots> = signed_take_bit 63 (int n)" by simp
  also have "\<dots> = int n"
  proof (rule signed_take_bit_int_eq_self)
    show "- (2 ^ 63) \<le> int n" by simp
    from n have "int n < int (2 ^ 63)" by (simp only: of_nat_less_iff)
    then show "int n < 2 ^ 63" by simp
  qed
  finally show ?thesis .
qed

lemma of_nat_64_nonzero:
  "0 < n \<Longrightarrow> n < 2 ^ 63 \<Longrightarrow> (of_nat n :: 64 word) \<noteq> 0"
  using sint_of_nat_64 [of n] by auto

lemma find_loop_tables:
  "findMetadataIndex_loop (md[k := (md ! k)\<lparr>offset := a, size_arr := b\<rparr>]) maxf iid i
     = findMetadataIndex_loop md maxf iid i"
proof (induction md maxf iid i rule: findMetadataIndex_loop.induct)
  case (1 md maxf iid i)
  let ?md = "md[k := (md ! k)\<lparr>offset := a, size_arr := b\<rparr>]"
  have same: "img_id (?md ! i) = img_id (md ! i)" "is_valid (?md ! i) = is_valid (md ! i)"
    by (cases "k < length md"; cases "i = k"; simp add: list_update_beyond)+
  show ?case
  proof (cases "i < maxf \<and> (strcmp (img_id (md ! i)) iid \<noteq> 0 \<or> is_valid (md ! i) = EMPTY)")
    case True
    with "1.IH" [OF True] same show ?thesis
      by (subst (1 2) findMetadataIndex_loop.simps) simp
  next
    case False
    with same show ?thesis
      by (subst (1 2) findMetadataIndex_loop.simps) auto
  qed
qed

lemma findMetadataIndex_tables:
  assumes "header s' = header s"
    "metadata s' = (metadata s)[k := (metadata s ! k)\<lparr>offset := a, size_arr := b\<rparr>]"
  shows "findMetadataIndex iid s' = findMetadataIndex iid s"
proof -
  let ?i = "findMetadataIndex_loop (metadata s) (unat (max_files (header s))) iid 0"
  have l: "findMetadataIndex_loop (metadata s') (unat (max_files (header s'))) iid 0 = ?i"
    by (simp add: assms find_loop_tables)
  have "is_valid (metadata s' ! ?i) = is_valid (metadata s ! ?i)"
    unfolding assms(2)
    by (cases "k < length (metadata s)"; cases "?i = k"; simp add: list_update_beyond)
  then have "validMetadataIndex ?i s' = validMetadataIndex ?i s"
    by (simp add: validMetadataIndex_def assms(1))
  with l show ?thesis
    by (simp add: findMetadataIndex_def)
qed

lemma fread_1_cases:
  assumes "fread sz 1 f = (n, b, f')"
  shows "(n = 1 \<and> mode f \<noteq> WB \<and> 0 < sz \<and> pos f + sz \<le> length (contents f)
           \<and> b = take sz (drop (pos f) (contents f)) \<and> f' = f\<lparr>pos := pos f + sz\<rparr>)
         \<or> n = 0"
proof (cases "mode f \<noteq> WB \<and> 0 < sz \<and> pos f + sz \<le> length (contents f)")
  case True
  then have "fread sz 1 f = (1, take sz (drop (pos f) (contents f)), f\<lparr>pos := pos f + sz\<rparr>)"
    by (intro fread_1_ok) simp_all
  then have "(n, b, f') = (1, take sz (drop (pos f) (contents f)), f\<lparr>pos := pos f + sz\<rparr>)"
    by (simp only: assms)
  with True show ?thesis by (simp only: prod.inject) simp
next
  case False
  then have "mode f = WB \<or> sz = 0 \<or> (length (contents f) - pos f) div sz = 0"
    by (auto simp: div_eq_0_iff)
  then have "fst (fread sz 1 f) = 0" by (auto simp: fread_def Let_def)
  then have "n = 0" by (simp only: assms fst_conv)
  then show ?thesis by simp
qed

lemma read_vips_ok_nonempty:
  assumes "read_vips_from_file E sz f = (ERR_NONE, img, f')"
  shows "0 < length (contents f)"
proof -
  obtain n b f1 where fr: "fread sz 1 f = (n, b, f1)" by (cases "fread sz 1 f") auto
  with assms have "n = 1"
    by (auto simp: read_vips_from_file_def split: if_splits option.splits)
  with fread_1_cases [OF fr] show ?thesis by auto
qed

lemma lazily_resize_miss:
  assumes r: "lazily_resize E rc s idx = (ERR_NONE, s')"
    and rc: "rc = RES_SMALL \<or> rc = RES_THUMB"
    and miss: "res_get (offset (metadata s ! idx)) rc = INIT_OFFSET"
  shows "\<exists>sz. metadata s' = (metadata s)
            [idx := (metadata s ! idx)
               \<lparr>offset := res_set (offset (metadata s ! idx)) rc
                            (of_nat (length (contents (filep s)))),
                size_arr := sz\<rparr>]"
    and "0 < length (contents (filep s))"
    and "idx < unat (max_files (header s))"
proof -
  from rc have rc': "rc \<noteq> RES_ORIG" "\<not> (rc \<noteq> RES_SMALL \<and> rc \<noteq> RES_THUMB)"
    by (auto simp: RES_ORIG_def RES_SMALL_def RES_THUMB_def)
  from r rc' have v: "validMetadataIndex idx s = ERR_NONE"
    by (auto simp: lazily_resize_def split: if_splits)
  then show "idx < unat (max_files (header s))"
    by (auto simp: validMetadataIndex_def split: if_splits)
  obtain ok1 f1 where s1: "fseek_set (filep s) (sint (res_get (offset (metadata s ! idx)) RES_ORIG)) = (ok1, f1)"
    by (cases "fseek_set (filep s) (sint (res_get (offset (metadata s ! idx)) RES_ORIG))") auto
  obtain e2 img f2 where rv: "read_vips_from_file E (unat (res_get (size_arr (metadata s ! idx)) RES_ORIG)) f1 = (e2, img, f2)"
    by (cases "read_vips_from_file E (unat (res_get (size_arr (metadata s ! idx)) RES_ORIG)) f1") auto
  note a = fseek_set_frame [OF s1] and b = read_vips_frame [OF rv]
  from r rc' v miss s1 rv have e2: "e2 = ERR_NONE"
    by (auto simp: lazily_resize_def Let_def split: if_splits)
  from read_vips_ok_nonempty [OF rv [unfolded e2]] a
  show "0 < length (contents (filep s))" by simp
  let ?ratio = "shrink_value (the img)
                        (uint (res_resized (header s) ! nat (2 * rc)))
                        (uint (res_resized (header s) ! nat (2 * rc + 1)))"
  let ?f3 = "snd (fseek_end f2)"
  obtain e4 n f4 where wv: "write_vips_to_file E (vips_resize E (the img) ?ratio) ?f3 = (e4, n, f4)"
    by (cases "write_vips_to_file E (vips_resize E (the img) ?ratio) ?f3") auto
  from r rc' v miss s1 rv e2 wv have e4: "e4 = ERR_NONE"
    by (auto simp: lazily_resize_def Let_def fseek_end_def split: if_splits)
  let ?s5 = "s\<lparr>filep := f4,
                metadata := (metadata s)
                  [idx := (metadata s ! idx)
                     \<lparr>offset := res_set (offset (metadata s ! idx)) rc (of_int (ftell ?f3)),
                      size_arr := res_set (size_arr (metadata s ! idx)) rc (of_nat n)\<rparr>]\<rparr>"
  from r rc' v miss s1 rv e2 wv e4 have um: "updateMetadata E idx ?s5 = (ERR_NONE, s')"
    by (auto simp: lazily_resize_def Let_def fseek_end_def split: if_splits)
  have ft: "ftell ?f3 = int (length (contents (filep s)))"
    using a b by (simp add: ftell_def fseek_end_def)
  from updateMetadata_frame [OF um] ft
  have "metadata s' = (metadata s)
            [idx := (metadata s ! idx)
               \<lparr>offset := res_set (offset (metadata s ! idx)) rc
                            (of_nat (length (contents (filep s)))),
                size_arr := res_set (size_arr (metadata s ! idx)) rc (of_nat n)\<rparr>]"
    by simp
  then show "\<exists>sz. metadata s' = (metadata s)
            [idx := (metadata s ! idx)
               \<lparr>offset := res_set (offset (metadata s ! idx)) rc
                            (of_nat (length (contents (filep s)))),
                size_arr := sz\<rparr>]"
    by (rule exI)
qed

lemma fseek_set_ok: "0 \<le> off \<Longrightarrow> fseek_set f off = (True, f\<lparr>pos := nat off\<rparr>)"
  by (simp add: fseek_set_def)

lemma fread_1_result:
  assumes "fread sz 1 f = (1, b, f')"
  shows "f' = f\<lparr>pos := pos f + sz\<rparr>" "b = take sz (drop (pos f) (contents f))"
    "mode f \<noteq> WB" "0 < sz" "pos f + sz \<le> length (contents f)"
  using fread_1_cases [OF assms] by simp_all


subsection \<open>C7: reading a variant twice\<close>

text \<open>
  C7. Take a handle whose array has \<^verbatim>\<open>max_files\<close> slots, whose file is shorter than
  \<open>2 ^ 63\<close> bytes and whose recorded offsets for the variant are not negative as a
  \<^verbatim>\<open>long\<close> (both hold of every offset that \<^verbatim>\<open>ftell\<close> produced). If \<^verbatim>\<open>do_read\<close> of the
  small or the thumbnail variant succeeds, then the same call on the handle it leaves
  succeeds with the same bytes and the same size, and leaves that handle exactly as it
  found it: the offset recorded by the first call is not zero, so the second call does
  not resize, appends nothing and changes no slot.
\<close>

theorem do_read_twice:
  assumes rc: "resolution = RES_SMALL \<or> resolution = RES_THUMB"
    and len: "length (metadata s) = unat (max_files (header s))"
    and fits: "length (contents (filep s)) < 2 ^ 63"
    and offs: "\<forall>m \<in> set (metadata s). 0 \<le> sint (res_get (offset m) resolution)"
    and first: "do_read E iid resolution s = (ERR_NONE, buffer, image_size, s1)"
  shows "do_read E iid resolution s1 = (ERR_NONE, buffer, image_size, s1)"
proof -
  from rc have rcv: "\<not> (resolution \<noteq> RES_SMALL \<and> resolution \<noteq> RES_THUMB \<and> resolution \<noteq> RES_ORIG)"
    by auto
  from first rcv obtain idx where f: "findMetadataIndex iid s = (ERR_NONE, idx)"
    by (cases "findMetadataIndex iid s") (auto simp: do_read_def split: if_splits)
  from findMetadataIndex_ok(1) [OF f] len have il: "idx < length (metadata s)" by simp
  obtain e1 sA where lr: "(if res_get (offset (metadata s ! idx)) resolution = INIT_OFFSET
                     then lazily_resize E resolution s idx else (ERR_NONE, s)) = (e1, sA)"
    by (cases "(if res_get (offset (metadata s ! idx)) resolution = INIT_OFFSET
                     then lazily_resize E resolution s idx else (ERR_NONE, s))") auto
  from first rcv f lr have e1: "e1 = ERR_NONE"
    by (auto simp: do_read_def Let_def split: if_splits)
  let ?off = "res_get (offset (metadata sA ! idx)) resolution"
  let ?z = "res_get (size_arr (metadata sA ! idx)) resolution"
  obtain a b where hA: "header sA = header s" and nz: "?off \<noteq> INIT_OFFSET"
    and nn: "0 \<le> sint ?off"
    and mdA: "metadata sA = (metadata s)[idx := (metadata s ! idx)\<lparr>offset := a, size_arr := b\<rparr>]"
  proof (cases "res_get (offset (metadata s ! idx)) resolution = INIT_OFFSET")
    case False
    with lr have sa: "sA = s" by simp
    from il offs have "0 \<le> sint (res_get (offset (metadata s ! idx)) resolution)" by simp
    with False sa show thesis
      by (intro that [where a = "offset (metadata s ! idx)" and b = "size_arr (metadata s ! idx)"]) simp_all
  next
    case True
    with lr e1 have l: "lazily_resize E resolution s idx = (ERR_NONE, sA)" by simp
    from lazily_resize_miss(1) [OF l rc True] obtain sz where
      md: "metadata sA = (metadata s)
            [idx := (metadata s ! idx)
               \<lparr>offset := res_set (offset (metadata s ! idx)) resolution
                            (of_nat (length (contents (filep s)))),
                size_arr := sz\<rparr>]" ..
    note pos = lazily_resize_miss(2) [OF l rc True]
    from md il have o: "?off = of_nat (length (contents (filep s)))"
      by (simp add: res_get_set)
    from o of_nat_64_nonzero [OF pos fits] have x: "?off \<noteq> INIT_OFFSET" by (simp add: INIT_OFFSET_def)
    from o sint_of_nat_64 [OF fits] have y: "0 \<le> sint ?off" by simp
    from lazily_resize_frame(1) [OF l] have z: "header sA = header s" .
    from that [OF z x y md] show thesis .
  qed
  let ?f1 = "(filep sA)\<lparr>pos := nat (sint ?off)\<rparr>"
  have sk: "fseek_set (filep sA) (sint ?off) = (True, ?f1)" by (rule fseek_set_ok [OF nn])
  obtain n bb f2 where rd: "fread (unat ?z) 1 ?f1 = (n, bb, f2)"
    by (cases "fread (unat ?z) 1 ?f1") auto
  from first rcv f lr e1 sk rd have n: "n = 1" and res: "buffer = bb" "image_size = ?z" "s1 = sA\<lparr>filep := f2\<rparr>"
    by (auto simp: do_read_def Let_def split: if_splits)
  from fread_1_result(1) [OF rd [unfolded n]] have f2: "f2 = ?f1\<lparr>pos := pos ?f1 + unat ?z\<rparr>" .
  have m1: "metadata s1 = metadata sA" and h1: "header s1 = header sA" using res by simp_all
  have f1': "(filep s1)\<lparr>pos := nat (sint ?off)\<rparr> = ?f1" using res f2 by simp
  have find1: "findMetadataIndex iid s1 = (ERR_NONE, idx)"
    using findMetadataIndex_tables [where s' = s1 and s = s and k = idx and a = a and b = b and iid = iid]
      m1 h1 hA mdA f by simp
  have sk1: "fseek_set (filep s1) (sint ?off) = (True, ?f1)"
    using fseek_set_ok [OF nn, of "filep s1"] f1' by simp
  have s1': "s1\<lparr>filep := f2\<rparr> = s1" using res by simp
  from rcv find1 nz sk1 rd n res m1 s1' show ?thesis
    by (simp add: do_read_def Let_def)
qed

theorem do_read_twice_witness:
  "fst (do_read example_env ''a'' RES_SMALL example_store) = ERR_NONE
   \<and> fst (snd (do_read example_env ''a'' RES_SMALL example_store)) = [7]
   \<and> do_read example_env ''a'' RES_SMALL
        (snd (snd (snd (do_read example_env ''a'' RES_SMALL example_store))))
      = (ERR_NONE, [7], 1, snd (snd (snd (do_read example_env ''a'' RES_SMALL example_store))))
   \<and> res_get (offset (metadata (snd (snd (snd (do_read example_env ''a'' RES_SMALL example_store)))) ! 0))
        RES_SMALL = 6"
proof -
  let ?r = "do_read example_env ''a'' RES_SMALL example_store"
  have e: "fst ?r = ERR_NONE" by code_simp
  have b: "fst (snd ?r) = [7]" by code_simp
  have z: "fst (snd (snd ?r)) = 1" by code_simp
  have o: "res_get (offset (metadata (snd (snd (snd ?r))) ! 0)) RES_SMALL = 6" by code_simp
  from e b z have r: "?r = (ERR_NONE, [7], 1, snd (snd (snd ?r)))"
    by (metis prod.collapse)
  have l: "length (metadata example_store) = unat (max_files (header example_store))" by code_simp
  have fi: "length (contents (filep example_store)) < 2 ^ 63"
    by (simp add: example_store_def)
  have offs: "\<forall>m \<in> set (metadata example_store). 0 \<le> sint (res_get (offset m) RES_SMALL)"
    by (simp add: example_store_def zero_metadata_def RES_SMALL_def)
  from do_read_twice [OF _ l fi offs r] e b o show ?thesis by simp
qed

subsection \<open>The content pass of the dedup loop\<close>

lemma is_clone_tables:
  "is_clone (SHA (md[k := (md ! k)\<lparr>offset := a, size_arr := b\<rparr>] ! k))
      (md[k := (md ! k)\<lparr>offset := a, size_arr := b\<rparr>]) k j
     = is_clone (SHA (md ! k)) md k j"
  by (cases "k < length md") (auto simp: is_clone_def list_update_beyond)

lemma dedup_loop_unfold_skip:
  "i < maxf \<Longrightarrow> \<not> (i \<noteq> k \<and> is_valid (md ! i) \<noteq> 0) \<Longrightarrow>
     dedup_loop md maxf k i hc = dedup_loop md maxf k (Suc i) hc"
  by (subst dedup_loop.simps) auto

lemma dedup_loop_unfold_dup:
  "i < maxf \<Longrightarrow> i \<noteq> k \<Longrightarrow> is_valid (md ! i) \<noteq> 0 \<Longrightarrow>
   strncmp (img_id (md ! k)) (img_id (md ! i)) MAX_IMG_ID = 0 \<Longrightarrow>
     dedup_loop md maxf k i hc = (ERR_DUPLICATE_ID, md, hc)"
  by (subst dedup_loop.simps) auto

lemma dedup_loop_unfold_other:
  "i < maxf \<Longrightarrow> i \<noteq> k \<Longrightarrow> is_valid (md ! i) \<noteq> 0 \<Longrightarrow>
   strncmp (img_id (md ! k)) (img_id (md ! i)) MAX_IMG_ID \<noteq> 0 \<Longrightarrow>
   shaCompare (SHA (md ! k)) (SHA (md ! i)) \<noteq> 0 \<Longrightarrow>
     dedup_loop md maxf k i hc = dedup_loop md maxf k (Suc i) hc"
  by (subst dedup_loop.simps) auto

lemma dedup_loop_unfold_clone:
  "i < maxf \<Longrightarrow> i \<noteq> k \<Longrightarrow> is_valid (md ! i) \<noteq> 0 \<Longrightarrow>
   strncmp (img_id (md ! k)) (img_id (md ! i)) MAX_IMG_ID \<noteq> 0 \<Longrightarrow>
   shaCompare (SHA (md ! k)) (SHA (md ! i)) = 0 \<Longrightarrow>
     dedup_loop md maxf k i hc
       = dedup_loop (md[k := (md ! k)\<lparr>offset := offset (md ! i), size_arr := size_arr (md ! i)\<rparr>])
           maxf k (Suc i) 1"
  by (subst dedup_loop.simps) auto

lemma dedup_loop_end: "\<not> i < maxf \<Longrightarrow> dedup_loop md maxf k i hc = (ERR_NONE, md, hc)"
  by (subst dedup_loop.simps) auto

lemma dedup_loop_none:
  "\<forall>j. i \<le> j \<and> j < maxf \<longrightarrow> \<not> is_clone (SHA (md ! k)) md k j \<Longrightarrow>
   dedup_loop md maxf k i hc = (e, md', hc') \<Longrightarrow> md' = md \<and> hc' = hc"
proof (induction md maxf k i hc rule: dedup_loop.induct)
  case (1 md maxf k i hc)
  show ?case
  proof (cases "i < maxf")
    case False
    with "1.prems"(2) show ?thesis by (simp add: dedup_loop_end)
  next
    case lt: True
    from "1.prems"(1) have nxt: "\<forall>j. Suc i \<le> j \<and> j < maxf \<longrightarrow> \<not> is_clone (SHA (md ! k)) md k j" by auto
    from "1.prems"(1) lt have nc: "\<not> is_clone (SHA (md ! k)) md k i" by auto
    show ?thesis
    proof (cases "i \<noteq> k \<and> is_valid (md ! i) \<noteq> 0")
      case False
      with "1.prems"(2) lt have "dedup_loop md maxf k (Suc i) hc = (e, md', hc')"
        by (simp add: dedup_loop_unfold_skip)
      from "1.IH"(3) [OF lt False nxt this] show ?thesis .
    next
      case v: True
      show ?thesis
      proof (cases "strncmp (img_id (md ! k)) (img_id (md ! i)) MAX_IMG_ID = 0")
        case True
        with "1.prems"(2) lt v show ?thesis by (simp add: dedup_loop_unfold_dup)
      next
        case ns: False
        from nc v have sh: "shaCompare (SHA (md ! k)) (SHA (md ! i)) \<noteq> 0"
          by (simp add: is_clone_def)
        with "1.prems"(2) lt v ns have "dedup_loop md maxf k (Suc i) hc = (e, md', hc')"
          by (simp add: dedup_loop_unfold_other)
        from "1.IH"(2) [OF lt v ns sh nxt this] show ?thesis .
      qed
    qed
  qed
qed

lemma dedup_loop_last:
  "k < length md \<Longrightarrow> dedup_loop md maxf k i hc = (ERR_NONE, md', hc') \<Longrightarrow>
   i \<le> j \<Longrightarrow> j < maxf \<Longrightarrow> is_clone (SHA (md ! k)) md k j \<Longrightarrow>
   \<forall>j'. j < j' \<and> j' < maxf \<longrightarrow> \<not> is_clone (SHA (md ! k)) md k j' \<Longrightarrow>
     offset (md' ! k) = offset (md ! j) \<and> size_arr (md' ! k) = size_arr (md ! j) \<and> hc' = 1"
proof (induction md maxf k i hc rule: dedup_loop.induct)
  case (1 md maxf k i hc)
  note kl = "1.prems"(1) and run = "1.prems"(2) and ij = "1.prems"(3) and jm = "1.prems"(4)
    and cj = "1.prems"(5) and last = "1.prems"(6)
  from ij jm have lt: "i < maxf" by simp
  show ?case
  proof (cases "i \<noteq> k \<and> is_valid (md ! i) \<noteq> 0")
    case False
    with cj have "i \<noteq> j" by (auto simp: is_clone_def)
    with ij have sj: "Suc i \<le> j" by simp
    from run lt False have "dedup_loop md maxf k (Suc i) hc = (ERR_NONE, md', hc')"
      by (simp add: dedup_loop_unfold_skip)
    from "1.IH"(3) [OF lt False kl this sj jm cj last] show ?thesis .
  next
    case v: True
    show ?thesis
    proof (cases "strncmp (img_id (md ! k)) (img_id (md ! i)) MAX_IMG_ID = 0")
      case True
      with run lt v show ?thesis by (simp add: dedup_loop_unfold_dup)
    next
      case ns: False
      show ?thesis
      proof (cases "shaCompare (SHA (md ! k)) (SHA (md ! i)) = 0")
        case False
        with cj have "i \<noteq> j" by (auto simp: is_clone_def)
        with ij have sj: "Suc i \<le> j" by simp
        from run lt v ns False have "dedup_loop md maxf k (Suc i) hc = (ERR_NONE, md', hc')"
          by (simp add: dedup_loop_unfold_other)
        from "1.IH"(2) [OF lt v ns False kl this sj jm cj last] show ?thesis .
      next
        case sh: True
        let ?md2 = "md[k := (md ! k)\<lparr>offset := offset (md ! i), size_arr := size_arr (md ! i)\<rparr>]"
        from run lt v ns sh have r2: "dedup_loop ?md2 maxf k (Suc i) 1 = (ERR_NONE, md', hc')"
          by (simp add: dedup_loop_unfold_clone)
        from kl have kl2: "k < length ?md2" by simp
        from cj have jk: "j \<noteq> k" by (simp add: is_clone_def)
        show ?thesis
        proof (cases "i = j")
          case True
          from last True have "\<forall>j'. Suc i \<le> j' \<and> j' < maxf \<longrightarrow> \<not> is_clone (SHA (?md2 ! k)) ?md2 k j'"
            by (auto simp: is_clone_tables)
          from dedup_loop_none [OF this r2] have "md' = ?md2" "hc' = 1" by simp_all
          with kl True show ?thesis by simp
        next
          case False
          with ij have sj: "Suc i \<le> j" by simp
          from cj have cj2: "is_clone (SHA (?md2 ! k)) ?md2 k j" by (simp add: is_clone_tables)
          from last have last2: "\<forall>j'. j < j' \<and> j' < maxf \<longrightarrow> \<not> is_clone (SHA (?md2 ! k)) ?md2 k j'"
            by (simp add: is_clone_tables)
          from "1.IH"(1) [OF lt v ns sh kl2 r2 sj jm cj2 last2] jk
          show ?thesis by simp
        qed
      qed
    qed
  qed
qed

lemma ex_last:
  fixes n :: nat
  shows "\<exists>j<n. P j \<Longrightarrow> \<exists>j<n. P j \<and> (\<forall>j'. j < j' \<and> j' < n \<longrightarrow> \<not> P j')"
proof (induction n)
  case 0
  then show ?case by simp
next
  case (Suc n)
  show ?case
  proof (cases "P n")
    case True
    then show ?thesis by (intro exI [of _ n]) auto
  next
    case False
    with Suc.prems have "\<exists>j<n. P j" by (auto simp: less_Suc_eq)
    from Suc.IH [OF this] obtain j where "j < n" "P j" "\<forall>j'. j < j' \<and> j' < n \<longrightarrow> \<not> P j'"
      by blast
    with False show ?thesis by (intro exI [of _ j]) (auto simp: less_Suc_eq)
  qed
qed

lemma dedup_loop_no_dup:
  assumes "dedup_loop md maxf k 0 hc = (ERR_NONE, md', hc')"
    and "j < maxf" "j \<noteq> k" "is_valid (md ! j) \<noteq> 0"
  shows "strncmp (img_id (md ! k)) (img_id (md ! j)) MAX_IMG_ID \<noteq> 0"
proof
  assume "strncmp (img_id (md ! k)) (img_id (md ! j)) MAX_IMG_ID = 0"
  from dedup_loop_duplicate [OF _ assms(2,3,4) this, of 0 hc] assms(1) show False by simp
qed



lemma find_loop_first:
  assumes "k < maxf" "img_id (md ! k) = iid" "is_valid (md ! k) \<noteq> EMPTY"
    and "\<forall>j<k. \<not> (img_id (md ! j) = iid \<and> is_valid (md ! j) \<noteq> EMPTY)"
  shows "findMetadataIndex_loop md maxf iid 0 = k"
proof -
  let ?r = "findMetadataIndex_loop md maxf iid 0"
  have "\<not> k < ?r"
  proof
    assume "k < ?r"
    from find_loop_skip [OF _ this] assms(2,3) show False by simp
  qed
  moreover have "\<not> ?r < k"
  proof
    assume a: "?r < k"
    with assms(1) have "?r < maxf" by simp
    from find_loop_hit [OF this] a assms(4) show False by blast
  qed
  ultimately show ?thesis by simp
qed

lemma findMetadataIndex_first:
  assumes "k < unat (max_files (header s))" "img_id (metadata s ! k) = iid"
    "is_valid (metadata s ! k) \<noteq> EMPTY"
    and "\<forall>j<k. \<not> (img_id (metadata s ! j) = iid \<and> is_valid (metadata s ! j) \<noteq> EMPTY)"
  shows "findMetadataIndex iid s = (ERR_NONE, k)"
  using find_loop_first [OF assms] assms(1,3)
  by (simp add: findMetadataIndex_def validMetadataIndex_def)

lemma dedup_stage:
  assumes d: "do_name_and_content_dedup s1 k = (ERR_NONE, s2)"
    and kl: "k < length (metadata s1)"
    and len: "length (metadata s1) = unat (max_files (header s1))"
  shows "header s2 = header s1" "filep s2 = filep s1"
    "\<forall>j<length (metadata s1). j \<noteq> k \<and> is_valid (metadata s1 ! j) \<noteq> 0 \<longrightarrow>
        strncmp (img_id (metadata s1 ! k)) (img_id (metadata s1 ! j)) MAX_IMG_ID \<noteq> 0"
    "(\<not> (\<exists>j<length (metadata s1). is_clone (SHA (metadata s1 ! k)) (metadata s1) k j)
        \<and> metadata s2 = (metadata s1)[k := (metadata s1 ! k)
              \<lparr>offset := res_set (offset (metadata s1 ! k)) RES_ORIG 0\<rparr>])
     \<or> (\<exists>j<length (metadata s1). is_clone (SHA (metadata s1 ! k)) (metadata s1) k j
          \<and> (\<forall>j'. j < j' \<and> j' < length (metadata s1)
                 \<longrightarrow> \<not> is_clone (SHA (metadata s1 ! k)) (metadata s1) k j')
          \<and> metadata s2 = (metadata s1)[k := (metadata s1 ! k)
              \<lparr>offset := offset (metadata s1 ! j), size_arr := size_arr (metadata s1 ! j)\<rparr>])"
proof -
  let ?md = "metadata s1" and ?n = "unat (max_files (header s1))"
  from dedup_frame [OF d] show "header s2 = header s1" "filep s2 = filep s1" by simp_all
  from kl len have nk: "\<not> ?n \<le> k" by simp
  obtain e md' hc' where l: "dedup_loop ?md ?n k 0 0 = (e, md', hc')"
    by (cases "dedup_loop ?md ?n k 0 0") auto
  from d nk l have e: "e = ERR_NONE"
    by (auto simp: do_name_and_content_dedup_def split: if_splits)
  note l' = l [unfolded e]
  show "\<forall>j<length ?md. j \<noteq> k \<and> is_valid (?md ! j) \<noteq> 0 \<longrightarrow>
        strncmp (img_id (?md ! k)) (img_id (?md ! j)) MAX_IMG_ID \<noteq> 0"
    using dedup_loop_no_dup [OF l'] len by auto
  show "(\<not> (\<exists>j<length ?md. is_clone (SHA (?md ! k)) ?md k j)
        \<and> metadata s2 = ?md[k := (?md ! k)\<lparr>offset := res_set (offset (?md ! k)) RES_ORIG 0\<rparr>])
     \<or> (\<exists>j<length ?md. is_clone (SHA (?md ! k)) ?md k j
          \<and> (\<forall>j'. j < j' \<and> j' < length ?md \<longrightarrow> \<not> is_clone (SHA (?md ! k)) ?md k j')
          \<and> metadata s2 = ?md[k := (?md ! k)
              \<lparr>offset := offset (?md ! j), size_arr := size_arr (?md ! j)\<rparr>])"
  proof (cases "\<exists>j<length ?md. is_clone (SHA (?md ! k)) ?md k j")
    case False
    then have "\<forall>j. 0 \<le> j \<and> j < ?n \<longrightarrow> \<not> is_clone (SHA (?md ! k)) ?md k j"
      using len by simp
    from dedup_loop_none [OF this l'] have "md' = ?md" "hc' = 0" by simp_all
    with d nk l' have "metadata s2 = ?md[k := (?md ! k)\<lparr>offset := res_set (offset (?md ! k)) RES_ORIG 0\<rparr>]"
      by (auto simp: do_name_and_content_dedup_def)
    with False show ?thesis by simp
  next
    case True
    from ex_last [OF True] obtain j where j: "j < length ?md" "is_clone (SHA (?md ! k)) ?md k j"
      "\<forall>j'. j < j' \<and> j' < length ?md \<longrightarrow> \<not> is_clone (SHA (?md ! k)) ?md k j'"
      by blast
    from dedup_loop_last [OF kl l' _ _ j(2)] j(1,3) len
    have t: "offset (md' ! k) = offset (?md ! j)" "size_arr (md' ! k) = size_arr (?md ! j)" "hc' = 1"
      by simp_all
    from dedup_loop_shape [OF l'] t
    have "md' = ?md[k := (?md ! k)\<lparr>offset := offset (?md ! j), size_arr := size_arr (?md ! j)\<rparr>]"
      by simp
    moreover from d nk l' t have "metadata s2 = md'"
      by (auto simp: do_name_and_content_dedup_def)
    ultimately show ?thesis using j by blast
  qed
qed

subsection \<open>What a successful insert leaves\<close>

lemma offset_size_arr_commute:
  "(r :: img_metadata)\<lparr>offset := a, size_arr := b\<rparr> = r\<lparr>size_arr := b, offset := a\<rparr>"
  by (cases r) simp

lemma do_insert_result:
  assumes ins: "do_insert E C iid s = (ERR_NONE, s')"
    and len: "length (metadata s) = unat (max_files (header s))"
    and k: "k = do_insert_loop (metadata s) (unat (max_files (header s))) 0"
  obtains T O0 Z where
    "k < length (metadata s)" "is_valid (metadata s ! k) = 0"
    "header s' = (header s)\<lparr>imgst_version := imgst_version (header s) + 1,
                               num_files := num_files (header s) + 1\<rparr>"
    "metadata s' = (metadata s)[k := T]"
    "img_id T = memcpy_id iid" "SHA T = SHA256 E C" "is_valid T = NON_EMPTY"
    "offset T = (if res_get O0 RES_ORIG = 0
                 then res_set O0 RES_ORIG (of_nat (length (contents (filep s)))) else O0)"
    "size_arr T = res_set Z RES_ORIG (of_nat (length C))"
    "contents (filep s') =
       overwrite (overwrite (if res_get O0 RES_ORIG = 0 then contents (filep s) @ C
                             else contents (filep s))
                    0 (enc_header E (header s')))
         (slot_pos E k) (enc_metadata E T)"
    "res_get O0 RES_ORIG = 0 \<longrightarrow> C \<noteq> []"
    "mode (filep s') = mode (filep s)" "mode (filep s) \<noteq> RB"
    "vips_jpegload_buffer E C \<noteq> None"
    "\<forall>j<length (metadata s). j \<noteq> k \<and> is_valid (metadata s ! j) \<noteq> 0 \<longrightarrow>
        strncmp iid (img_id (metadata s ! j)) MAX_IMG_ID \<noteq> 0"
    "(\<not> (\<exists>j<length (metadata s). is_clone (SHA256 E C) (metadata s) k j)
        \<and> O0 = res_set (offset (metadata s ! k)) RES_ORIG 0 \<and> Z = size_arr (metadata s ! k))
     \<or> (\<exists>j<length (metadata s). is_clone (SHA256 E C) (metadata s) k j
          \<and> (\<forall>j'. j < j' \<and> j' < length (metadata s)
                 \<longrightarrow> \<not> is_clone (SHA256 E C) (metadata s) k j')
          \<and> O0 = offset (metadata s ! j) \<and> Z = size_arr (metadata s ! j))"
proof -
  let ?md = "metadata s" and ?c = "contents (filep s)"
  let ?md1 = "?md[k := (?md ! k)\<lparr>SHA := SHA256 E C, img_id := memcpy_id iid\<rparr>]"
  let ?s1 = "s\<lparr>metadata := ?md1\<rparr>"
  from do_insert_okE [OF ins k] obtain s2 s3 where
    nf: "num_files (header s) < max_files (header s)" and kl: "k < length ?md"
    and d: "do_name_and_content_dedup ?s1 k = (ERR_NONE, s2)"
    and a: "do_insert_append C k s2 = (ERR_NONE, s3)"
    and f: "do_insert_finish E C k s3 = (ERR_NONE, s')"
    by blast
  from kl len insert_loop_free [of ?md "unat (max_files (header s))" 0] k
  have free: "is_valid (?md ! k) = 0" by simp
  have kl1: "k < length (metadata ?s1)" and len1: "length (metadata ?s1) = unat (max_files (header ?s1))"
    using kl len by simp_all
  note ds = dedup_stage [OF d kl1 len1]
  have k1: "?md1 ! k = (?md ! k)\<lparr>SHA := SHA256 E C, img_id := memcpy_id iid\<rparr>" using kl by simp
  have cl: "is_clone (SHA (?md1 ! k)) ?md1 k j = is_clone (SHA256 E C) ?md k j" for j
    using kl by (auto simp: is_clone_def)
  have nodup: "\<forall>j<length ?md. j \<noteq> k \<and> is_valid (?md ! j) \<noteq> 0 \<longrightarrow>
        strncmp iid (img_id (?md ! j)) MAX_IMG_ID \<noteq> 0"
  proof (intro allI impI)
    fix j assume j: "j < length ?md" "j \<noteq> k \<and> is_valid (?md ! j) \<noteq> 0"
    with ds(3) kl have "strncmp (img_id (?md1 ! k)) (img_id (?md1 ! j)) MAX_IMG_ID \<noteq> 0"
      by simp
    with j kl show "strncmp iid (img_id (?md ! j)) MAX_IMG_ID \<noteq> 0"
      by (simp add: strncmp_memcpy_id)
  qed
  obtain O0 Z where
    src: "(\<not> (\<exists>j<length ?md. is_clone (SHA256 E C) ?md k j)
        \<and> O0 = res_set (offset (?md ! k)) RES_ORIG 0 \<and> Z = size_arr (?md ! k))
     \<or> (\<exists>j<length ?md. is_clone (SHA256 E C) ?md k j
          \<and> (\<forall>j'. j < j' \<and> j' < length ?md \<longrightarrow> \<not> is_clone (SHA256 E C) ?md k j')
          \<and> O0 = offset (?md ! j) \<and> Z = size_arr (?md ! j))"
    and m2: "metadata s2 = ?md[k := (?md ! k)\<lparr>SHA := SHA256 E C, img_id := memcpy_id iid,
                                               offset := O0, size_arr := Z\<rparr>]"
  proof -
    from ds(4) show thesis
    proof (elim disjE conjE exE)
      assume n: "\<not> (\<exists>j<length (metadata ?s1). is_clone (SHA (metadata ?s1 ! k)) (metadata ?s1) k j)"
        and m: "metadata s2 = (metadata ?s1)[k := (metadata ?s1 ! k)
              \<lparr>offset := res_set (offset (metadata ?s1 ! k)) RES_ORIG 0\<rparr>]"
      from n have n': "\<not> (\<exists>j<length ?md. is_clone (SHA256 E C) ?md k j)" by (simp add: cl)
      from m kl have "metadata s2 = ?md[k := (?md ! k)\<lparr>SHA := SHA256 E C, img_id := memcpy_id iid,
             offset := res_set (offset (?md ! k)) RES_ORIG 0, size_arr := size_arr (?md ! k)\<rparr>]"
        by simp
      with n' show thesis
        by (intro that [where ?O0.0 = "res_set (offset (?md ! k)) RES_ORIG 0" and Z = "size_arr (?md ! k)"])
           simp_all
    next
      fix j
      assume j: "j < length (metadata ?s1)" "is_clone (SHA (metadata ?s1 ! k)) (metadata ?s1) k j"
        "\<forall>j'. j < j' \<and> j' < length (metadata ?s1)
                 \<longrightarrow> \<not> is_clone (SHA (metadata ?s1 ! k)) (metadata ?s1) k j'"
        and m: "metadata s2 = (metadata ?s1)[k := (metadata ?s1 ! k)
              \<lparr>offset := offset (metadata ?s1 ! j), size_arr := size_arr (metadata ?s1 ! j)\<rparr>]"
      from j(2) have jk: "j \<noteq> k" by (simp add: is_clone_def)
      from j have j': "j < length ?md" "is_clone (SHA256 E C) ?md k j"
        "\<forall>j'. j < j' \<and> j' < length ?md \<longrightarrow> \<not> is_clone (SHA256 E C) ?md k j'"
        by (simp_all add: cl)
      from m kl jk have "metadata s2 = ?md[k := (?md ! k)\<lparr>SHA := SHA256 E C, img_id := memcpy_id iid,
             offset := offset (?md ! j), size_arr := size_arr (?md ! j)\<rparr>]"
        by simp
      with j' show thesis
        by (intro that [where ?O0.0 = "offset (?md ! j)" and Z = "size_arr (?md ! j)"]) blast+
    qed
  qed
  from ds(1,2) have h2: "header s2 = header s" and fp2: "filep s2 = filep s" by simp_all
  from m2 kl have o2: "offset (metadata s2 ! k) = O0" by simp
  let ?O = "if res_get O0 RES_ORIG = 0 then res_set O0 RES_ORIG (of_nat (length ?c)) else O0"
  let ?c3 = "if res_get O0 RES_ORIG = 0 then ?c @ C else ?c"
  have s3: "header s3 = header s \<and> mode (filep s3) = mode (filep s)
      \<and> contents (filep s3) = ?c3
      \<and> metadata s3 = ?md[k := (?md ! k)\<lparr>SHA := SHA256 E C, img_id := memcpy_id iid,
                                               size_arr := Z, offset := ?O\<rparr>]
      \<and> (res_get O0 RES_ORIG = 0 \<longrightarrow> C \<noteq> [])"
  proof (cases "res_get O0 RES_ORIG = 0")
    case True
    from do_insert_append_ok(2) [OF a] True o2
    have "C \<noteq> []" "contents (filep s3) = contents (filep s2) @ C"
      "metadata s3 = (metadata s2)[k := (metadata s2 ! k)
               \<lparr>offset := res_set (offset (metadata s2 ! k)) RES_ORIG
                            (of_nat (length (contents (filep s2))))\<rparr>]"
      by simp_all
    with do_insert_append_frame(1,2) [OF a] True h2 fp2 m2 kl show ?thesis by simp
  next
    case False
    from do_insert_append_ok(1) [OF a] False o2 have "s3 = s2" by simp
    with False h2 fp2 m2 show ?thesis by (simp add: offset_size_arr_commute)
  qed
  from do_insert_finish_cases(2) [OF f] obtain v where
    v: "vips_jpegload_buffer E C = Some v"
    and hs: "header s' = (header s3)\<lparr>imgst_version := imgst_version (header s3) + 1,
                                         num_files := num_files (header s3) + 1\<rparr>"
    and ms: "metadata s' = (metadata s3)
                   [k := (metadata s3 ! k)
                      \<lparr>res_orig := (of_int (Xsize v), of_int (Ysize v)),
                       is_valid := NON_EMPTY,
                       size_arr := res_set (size_arr (metadata s3 ! k)) RES_ORIG
                                     (of_nat (length C))\<rparr>]"
    by auto
  let ?T = "(?md ! k)\<lparr>SHA := SHA256 E C, img_id := memcpy_id iid, offset := ?O,
                       res_orig := (of_int (Xsize v), of_int (Ysize v)),
                       is_valid := NON_EMPTY,
                       size_arr := res_set Z RES_ORIG (of_nat (length C))\<rparr>"
  from ms s3 kl have mT: "metadata s' = ?md[k := ?T]" by simp
  from mT kl have Tk: "metadata s' ! k = ?T" by simp
  from do_insert_finish_ok [OF f] s3 Tk
  have ct: "contents (filep s') = overwrite (overwrite ?c3 0 (enc_header E (header s')))
         (slot_pos E k) (enc_metadata E ?T)"
    and mo: "mode (filep s) \<noteq> RB"
    by simp_all
  from do_insert_finish_cases(1) [OF f] s3 have mo': "mode (filep s') = mode (filep s)" by simp
  from hs s3 have hs': "header s' = (header s)\<lparr>imgst_version := imgst_version (header s) + 1,
                               num_files := num_files (header s) + 1\<rparr>" by simp
  show thesis
  proof (rule that [where T = ?T and ?O0.0 = O0 and Z = Z])
    show "k < length ?md" by (rule kl)
    show "is_valid (?md ! k) = 0" by (rule free)
    show "header s' = (header s)\<lparr>imgst_version := imgst_version (header s) + 1,
                               num_files := num_files (header s) + 1\<rparr>" by (rule hs')
    show "metadata s' = ?md[k := ?T]" by (rule mT)
    show "img_id ?T = memcpy_id iid" "SHA ?T = SHA256 E C" "is_valid ?T = NON_EMPTY" by simp_all
    show "offset ?T = ?O" by simp
    show "size_arr ?T = res_set Z RES_ORIG (of_nat (length C))" by simp
    show "contents (filep s') = overwrite (overwrite ?c3 0 (enc_header E (header s')))
         (slot_pos E k) (enc_metadata E ?T)" by (rule ct)
    show "res_get O0 RES_ORIG = 0 \<longrightarrow> C \<noteq> []" using s3 by simp
    show "mode (filep s') = mode (filep s)" by (rule mo')
    show "mode (filep s) \<noteq> RB" by (rule mo)
    show "vips_jpegload_buffer E C \<noteq> None" using v by simp
    show "\<forall>j<length ?md. j \<noteq> k \<and> is_valid (?md ! j) \<noteq> 0 \<longrightarrow>
        strncmp iid (img_id (?md ! j)) MAX_IMG_ID \<noteq> 0" by (rule nodup)
    show "(\<not> (\<exists>j<length ?md. is_clone (SHA256 E C) ?md k j)
        \<and> O0 = res_set (offset (?md ! k)) RES_ORIG 0 \<and> Z = size_arr (?md ! k))
     \<or> (\<exists>j<length ?md. is_clone (SHA256 E C) ?md k j
          \<and> (\<forall>j'. j < j' \<and> j' < length ?md \<longrightarrow> \<not> is_clone (SHA256 E C) ?md k j')
          \<and> O0 = offset (?md ! j) \<and> Z = size_arr (?md ! j))" by (rule src)
  qed
qed

lemma holds_content_offset:
  "offset m = offset m' \<Longrightarrow> holds_content E s m D = holds_content E s m' D"
  by (simp add: holds_content_def)

lemma heap_region_kept:
  assumes te: "table_end E s \<le> P" and fit: "P + n \<le> length c"
    and p: "slot_pos E k + length M \<le> table_end E s" and h: "length H \<le> table_end E s"
  shows "take n (drop P (overwrite (overwrite (c @ X) 0 H) (slot_pos E k) M)) = take n (drop P c)"
proof -
  have "drop P (overwrite (overwrite (c @ X) 0 H) (slot_pos E k) M) = drop P (overwrite (c @ X) 0 H)"
    using te p by (intro drop_overwrite_after) simp
  also have "\<dots> = drop P (c @ X)"
    using te h by (intro drop_overwrite_after) simp
  finally show ?thesis using fit by simp
qed

lemma table_overwrite_length:
  assumes "table_end E s \<le> length c"
    and p: "slot_pos E k + length M \<le> table_end E s" and h: "length H \<le> table_end E s"
  shows "length (overwrite (overwrite (c @ X) 0 H) (slot_pos E k) M) = length c + length X"
  using assms by (simp add: length_overwrite)

lemma do_insert_semantics:
  assumes env: "env_ok E" and ok: "handle_ok E s" and ds: "dedup_sound E s C"
    and fits: "length (contents (filep s)) < 2 ^ 63"
    and ins: "do_insert E C iid s = (ERR_NONE, s')"
    and k: "k = do_insert_loop (metadata s) (unat (max_files (header s))) 0"
    and short: "length iid \<le> MAX_IMG_ID"
  shows "handle_ok E s'" "table_end E s' = table_end E s"
    "holds_content E s' (metadata s' ! k) C"
    "res_get (offset (metadata s' ! k)) RES_ORIG \<noteq> 0"
    "\<forall>m D. holds_content E s m D \<longrightarrow> holds_content E s' m D"
    "length (contents (filep s'))
       = length (contents (filep s))
         + (if \<exists>j<length (metadata s). is_clone (SHA256 E C) (metadata s) k j then 0 else length C)"
    "dedup_sound E s' C"
    "findMetadataIndex iid s' = (ERR_NONE, k)"
    "drop (table_end E s) (contents (filep s'))
       = drop (table_end E s) (contents (filep s))
         @ (if \<exists>j<length (metadata s). is_clone (SHA256 E C) (metadata s) k j then [] else C)"
    "mode (filep s') = mode (filep s)"
    "k < length (metadata s)" "is_valid (metadata s ! k) = 0"
    "\<exists>T. metadata s' = (metadata s)[k := T] \<and> img_id T = iid \<and> SHA T = SHA256 E C
         \<and> is_valid T = NON_EMPTY
         \<and> res_get (size_arr T) RES_ORIG = of_nat (length C)"
    "header s' = (header s)\<lparr>imgst_version := imgst_version (header s) + 1,
                               num_files := num_files (header s) + 1\<rparr>"
    "vips_jpegload_buffer E C \<noteq> None"
    "\<forall>j<length (metadata s). j \<noteq> k \<and> is_valid (metadata s ! j) \<noteq> 0 \<longrightarrow>
        strncmp iid (img_id (metadata s ! j)) MAX_IMG_ID \<noteq> 0"
proof -
  let ?md = "metadata s" and ?c = "contents (filep s)"
  from ok have len: "length ?md = unat (max_files (header s))" and te: "table_end E s \<le> length ?c"
    by (simp_all add: handle_ok_def)
  obtain T O0 Z where
    kl: "k < length (metadata s)" and free: "is_valid (metadata s ! k) = 0"
    and hs: "header s' = (header s)\<lparr>imgst_version := imgst_version (header s) + 1,
                               num_files := num_files (header s) + 1\<rparr>"
    and ms: "metadata s' = (metadata s)[k := T]"
    and T0: "img_id T = memcpy_id iid" and T': "SHA T = SHA256 E C" "is_valid T = NON_EMPTY"
    and oT: "offset T = (if res_get O0 RES_ORIG = 0
                 then res_set O0 RES_ORIG (of_nat (length (contents (filep s)))) else O0)"
    and zT: "size_arr T = res_set Z RES_ORIG (of_nat (length C))"
    and ct: "contents (filep s') =
       overwrite (overwrite (if res_get O0 RES_ORIG = 0 then contents (filep s) @ C
                             else contents (filep s))
                    0 (enc_header E (header s')))
         (slot_pos E k) (enc_metadata E T)"
    and ne: "res_get O0 RES_ORIG = 0 \<longrightarrow> C \<noteq> []"
    and mo': "mode (filep s') = mode (filep s)" and mo: "mode (filep s) \<noteq> RB"
    and dec: "vips_jpegload_buffer E C \<noteq> None"
    and nodup: "\<forall>j<length (metadata s). j \<noteq> k \<and> is_valid (metadata s ! j) \<noteq> 0 \<longrightarrow>
        strncmp iid (img_id (metadata s ! j)) MAX_IMG_ID \<noteq> 0"
    and src: "(\<not> (\<exists>j<length (metadata s). is_clone (SHA256 E C) (metadata s) k j)
        \<and> O0 = res_set (offset (metadata s ! k)) RES_ORIG 0 \<and> Z = size_arr (metadata s ! k))
     \<or> (\<exists>j<length (metadata s). is_clone (SHA256 E C) (metadata s) k j
          \<and> (\<forall>j'. j < j' \<and> j' < length (metadata s) \<longrightarrow> \<not> is_clone (SHA256 E C) (metadata s) k j')
          \<and> O0 = offset (metadata s ! j) \<and> Z = size_arr (metadata s ! j))"
    by (rule do_insert_result [OF ins len k]) (rule that)
  from T0 short have T: "img_id T = iid" "SHA T = SHA256 E C" "is_valid T = NON_EMPTY"
    using T' by (simp_all add: memcpy_id_short)
  let ?H = "enc_header E (header s')" and ?M = "enc_metadata E T"
  let ?X = "if res_get O0 RES_ORIG = 0 then C else []"
  have c3: "(if res_get O0 RES_ORIG = 0 then ?c @ C else ?c) = ?c @ ?X" by simp
  from env have lH: "length ?H = sizeof_imgst_header E" and lM: "length ?M = sizeof_img_metadata E"
    and hpos: "0 < sizeof_imgst_header E"
    by (simp_all add: env_ok_def)
  from kl len slot_in_table [of k s E] lM have pM: "slot_pos E k + length ?M \<le> table_end E s" by simp
  have hT: "length ?H \<le> table_end E s" using lH by (simp add: table_end_def slot_pos_def)
  from hpos have tpos: "0 < table_end E s" by (simp add: table_end_def slot_pos_def)
  show te': "table_end E s' = table_end E s" by (simp add: table_end_def hs)
  have lc: "length (contents (filep s')) = length ?c + length ?X"
    unfolding ct c3 by (rule table_overwrite_length [OF te pM hT])
  have kept: "take n (drop P (contents (filep s'))) = take n (drop P ?c)"
    if "table_end E s \<le> P" "P + n \<le> length ?c" for P n
    unfolding ct c3 by (rule heap_region_kept [OF that pM hT])
  show keep: "\<forall>m D. holds_content E s m D \<longrightarrow> holds_content E s' m D"
  proof (intro allI impI)
    fix m D assume h: "holds_content E s m D"
    let ?P = "nat (sint (res_get (offset m) RES_ORIG))"
    from h have a: "0 \<le> sint (res_get (offset m) RES_ORIG)" "table_end E s \<le> ?P"
      "?P + length D \<le> length ?c" "take (length D) (drop ?P ?c) = D"
      by (simp_all add: holds_content_def)
    from kept [OF a(2,3)] a lc te' show "holds_content E s' m D"
      by (simp add: holds_content_def)
  qed
  have clone_case: "res_get O0 RES_ORIG \<noteq> 0 \<and> holds_content E s (?md ! j) C \<and> O0 = offset (?md ! j)"
    if j: "j < length ?md" "is_clone (SHA256 E C) ?md k j" "O0 = offset (?md ! j)" for j
  proof -
    from j(1) have "?md ! j \<in> set ?md" by simp
    with ds j(2) have "res_get (offset (?md ! j)) RES_ORIG \<noteq> 0 \<and> holds_content E s (?md ! j) C"
      by (simp add: dedup_sound_def is_clone_def)
    with j(3) show ?thesis by simp
  qed
  have Tk: "metadata s' ! k = T" using ms kl by simp
  have main: "holds_content E s' T C \<and> res_get (offset T) RES_ORIG \<noteq> 0
     \<and> ((\<exists>j<length ?md. is_clone (SHA256 E C) ?md k j) \<longleftrightarrow> res_get O0 RES_ORIG \<noteq> 0)"
  proof (cases "res_get O0 RES_ORIG = 0")
    case True
    with src clone_case have nc: "\<not> (\<exists>j<length ?md. is_clone (SHA256 E C) ?md k j)" by blast
    from True oT have o: "res_get (offset T) RES_ORIG = of_nat (length ?c)"
      by (simp add: res_get_set)
    from te tpos have pos: "0 < length ?c" by (rule less_le_trans [rotated])
    from sint_of_nat_64 [OF fits] o have si: "sint (res_get (offset T) RES_ORIG) = int (length ?c)"
      by simp
    have "drop (length ?c) (contents (filep s')) = drop (length ?c) (?c @ ?X)"
    proof -
      have "drop (length ?c) (overwrite (overwrite (?c @ ?X) 0 ?H) (slot_pos E k) ?M)
              = drop (length ?c) (overwrite (?c @ ?X) 0 ?H)"
        using te pM by (intro drop_overwrite_after) simp
      also have "\<dots> = drop (length ?c) (?c @ ?X)"
        using te hT by (intro drop_overwrite_after) simp
      finally show ?thesis unfolding ct c3 .
    qed
    with True have "take (length C) (drop (length ?c) (contents (filep s'))) = C" by simp
    with si te te' lc True have "holds_content E s' T C" by (simp add: holds_content_def)
    moreover from o of_nat_64_nonzero [OF pos fits] have "res_get (offset T) RES_ORIG \<noteq> 0" by simp
    ultimately show ?thesis using nc True by simp
  next
    case False
    from src False have "\<exists>j<length ?md. is_clone (SHA256 E C) ?md k j \<and> O0 = offset (?md ! j)"
      by (auto simp: res_get_set)
    then obtain j where j: "j < length ?md" "is_clone (SHA256 E C) ?md k j" "O0 = offset (?md ! j)"
      by blast
    from clone_case [OF j] keep have "holds_content E s' (?md ! j) C" by blast
    moreover from False oT j have "offset T = offset (?md ! j)" by simp
    ultimately have "holds_content E s' T C" by (simp add: holds_content_offset [of T "?md ! j"])
    with False oT j show ?thesis by auto
  qed
  from main Tk show "holds_content E s' (metadata s' ! k) C"
    "res_get (offset (metadata s' ! k)) RES_ORIG \<noteq> 0" by simp_all
  from main lc show "length (contents (filep s'))
       = length ?c + (if \<exists>j<length ?md. is_clone (SHA256 E C) ?md k j then 0 else length C)"
    by auto
  from ms len hs lc te te' show "handle_ok E s'" by (simp add: handle_ok_def)
  have "drop (table_end E s) (contents (filep s')) = drop (table_end E s) (?c @ ?X)"
  proof -
    have "drop (table_end E s) (overwrite (overwrite (?c @ ?X) 0 ?H) (slot_pos E k) ?M)
            = drop (table_end E s) (overwrite (?c @ ?X) 0 ?H)"
      using pM by (intro drop_overwrite_after) simp
    also have "\<dots> = drop (table_end E s) (?c @ ?X)"
      using hT by (intro drop_overwrite_after) simp
    finally show ?thesis unfolding ct c3 .
  qed
  with te main show "drop (table_end E s) (contents (filep s'))
       = drop (table_end E s) ?c
         @ (if \<exists>j<length ?md. is_clone (SHA256 E C) ?md k j then [] else C)"
    by auto
  show "mode (filep s') = mode (filep s)" by (rule mo')
  show "vips_jpegload_buffer E C \<noteq> None" by (rule dec)
  show "\<forall>j<length ?md. j \<noteq> k \<and> is_valid (?md ! j) \<noteq> 0 \<longrightarrow>
        strncmp iid (img_id (?md ! j)) MAX_IMG_ID \<noteq> 0" by (rule nodup)
  show "k < length ?md" by (rule kl)
  show "is_valid (?md ! k) = 0" by (rule free)
  show "header s' = (header s)\<lparr>imgst_version := imgst_version (header s) + 1,
                               num_files := num_files (header s) + 1\<rparr>" by (rule hs)
  from ms T zT have "metadata s' = ?md[k := T] \<and> img_id T = iid \<and> SHA T = SHA256 E C
         \<and> is_valid T = NON_EMPTY \<and> res_get (size_arr T) RES_ORIG = of_nat (length C)"
    by (simp add: res_get_set)
  then show "\<exists>T. metadata s' = ?md[k := T] \<and> img_id T = iid \<and> SHA T = SHA256 E C
         \<and> is_valid T = NON_EMPTY \<and> res_get (size_arr T) RES_ORIG = of_nat (length C)"
    by (rule exI)
  show "dedup_sound E s' C"
    unfolding dedup_sound_def
  proof (intro ballI impI)
    fix m assume m: "m \<in> set (metadata s')" "is_valid m \<noteq> 0 \<and> shaCompare (SHA256 E C) (SHA m) = 0"
    from m(1) ms have "m = T \<or> m \<in> set ?md"
      using set_update_subset_insert [of ?md k T] by auto
    then show "res_get (offset m) RES_ORIG \<noteq> 0 \<and> holds_content E s' m C"
    proof
      assume "m = T" with main show ?thesis by simp
    next
      assume "m \<in> set ?md"
      with ds m(2) have "res_get (offset m) RES_ORIG \<noteq> 0 \<and> holds_content E s m C"
        by (simp add: dedup_sound_def)
      with keep show ?thesis by blast
    qed
  qed
  show "findMetadataIndex iid s' = (ERR_NONE, k)"
  proof (rule findMetadataIndex_first)
    show "k < unat (max_files (header s'))" using kl len hs by simp
    show "img_id (metadata s' ! k) = iid" using Tk T by simp
    show "is_valid (metadata s' ! k) \<noteq> EMPTY" using Tk T by (simp add: NON_EMPTY_def EMPTY_def)
    show "\<forall>j<k. \<not> (img_id (metadata s' ! j) = iid \<and> is_valid (metadata s' ! j) \<noteq> EMPTY)"
    proof (intro allI impI notI)
      fix j assume j: "j < k" "img_id (metadata s' ! j) = iid \<and> is_valid (metadata s' ! j) \<noteq> EMPTY"
      with ms have "img_id (?md ! j) = iid" "is_valid (?md ! j) \<noteq> 0" by (simp_all add: EMPTY_def)
      moreover from j(1) kl have "j < length ?md" "j \<noteq> k" by simp_all
      moreover note nodup [rule_format, of j]
      ultimately show False by (simp add: strncmp_def)
    qed
  qed
qed

subsection \<open>Reading an original\<close>

lemma unat_of_nat_le: "unat (of_nat n :: 'a::len word) \<le> n"
  by (simp add: unat_of_nat)

lemma read_original:
  assumes f: "findMetadataIndex iid s = (ERR_NONE, k)"
    and h: "holds_content E s (metadata s ! k) C"
    and z: "z = res_get (size_arr (metadata s ! k)) RES_ORIG"
    and zl: "unat z \<le> length C"
    and mo: "mode (filep s) \<noteq> WB"
  shows "\<exists>s'. do_read E iid RES_ORIG s
     = (if z = 0 then ERR_IO else ERR_NONE, if z = 0 then [] else take (unat z) C, z, s')"
proof -
  let ?o = "res_get (offset (metadata s ! k)) RES_ORIG"
  let ?P = "nat (sint ?o)"
  let ?f = "(filep s)\<lparr>pos := ?P\<rparr>"
  from h have a: "0 \<le> sint ?o" "?P + length C \<le> length (contents (filep s))"
    "take (length C) (drop ?P (contents (filep s))) = C"
    by (simp_all add: holds_content_def)
  have lr: "(if ?o = INIT_OFFSET then lazily_resize E RES_ORIG s k else (ERR_NONE, s)) = (ERR_NONE, s)"
    by (simp add: lazily_resize_def)
  have sk: "fseek_set (filep s) (sint ?o) = (True, ?f)" by (rule fseek_set_ok [OF a(1)])
  obtain n b f' where fr: "fread (unat z) 1 ?f = (n, b, f')"
    by (cases "fread (unat z) 1 ?f") auto
  have r: "do_read E iid RES_ORIG s
     = (if n \<noteq> 1 then (ERR_IO, [], z, s\<lparr>filep := f'\<rparr>) else (ERR_NONE, b, z, s\<lparr>filep := f'\<rparr>))"
    unfolding do_read_def using f lr sk fr z by (simp add: Let_def)
  show ?thesis
  proof (cases "z = 0")
    case True
    then have "fst (fread (unat z) 1 ?f) = 0" by (simp add: fread_def)
    with fr have "n = 0" by simp
    with r True show ?thesis by simp
  next
    case False
    then have pos: "0 < unat z" by (simp add: unat_gt_0)
    from zl a(2) have "pos ?f + unat z \<le> length (contents ?f)" by simp
    with fread_1_ok [of ?f "unat z"] mo pos
    have "fread (unat z) 1 ?f = (1, take (unat z) (drop ?P (contents (filep s))), ?f\<lparr>pos := pos ?f + unat z\<rparr>)"
      by simp
    with fr have n: "n = 1" and b: "b = take (unat z) (drop ?P (contents (filep s)))" by simp_all
    have "take (unat z) (take (length C) (drop ?P (contents (filep s)))) = take (unat z) (drop ?P (contents (filep s)))"
      using zl by (simp add: min_def)
    with a(3) b have "b = take (unat z) C" by simp
    with r n False show ?thesis by simp
  qed
qed

lemma read_after_insert:
  assumes env: "env_ok E" and ok: "handle_ok E s" and ds: "dedup_sound E s C"
    and fits: "length (contents (filep s)) < 2 ^ 63"
    and mo: "mode (filep s) \<noteq> WB"
    and ins: "do_insert E C iid s = (ERR_NONE, s')"
    and z: "z = (of_nat (length C) :: 32 word)"
    and short: "length iid \<le> MAX_IMG_ID"
  shows "\<exists>s''. do_read E iid RES_ORIG s'
     = (if z = 0 then ERR_IO else ERR_NONE, if z = 0 then [] else take (unat z) C, z, s'')"
proof -
  let ?k = "do_insert_loop (metadata s) (unat (max_files (header s))) 0"
  note sem = do_insert_semantics [OF env ok ds fits ins refl short]
  from sem(13) obtain T where T: "metadata s' = (metadata s)[?k := T]"
    "res_get (size_arr T) RES_ORIG = of_nat (length C)" by blast
  with sem(11) have zz: "z = res_get (size_arr (metadata s' ! ?k)) RES_ORIG" by (simp add: z)
  have zl: "unat z \<le> length C" unfolding z by (rule unat_of_nat_le)
  from sem(10) mo have mo': "mode (filep s') \<noteq> WB" by simp
  show ?thesis by (rule read_original [OF sem(8) sem(3) zz zl mo'])
qed

lemma length_big_tail: "length big_tail = 2 ^ 32"
  unfolding big_tail_def by (rule length_replicate)

lemma length_big_content: "length big_content = 2 ^ 32 + 1"
  by (simp only: big_content_def list.size length_big_tail)

lemma example_env_ok: "env_ok example_env"
  by (simp add: env_ok_def example_env_def)

lemma example_empty_ok: "handle_ok example_env (example_empty 1)"
  by (simp add: handle_ok_def table_end_def slot_pos_def example_env_def example_empty_def)

lemma example_empty_sound: "dedup_sound example_env (example_empty 1) C"
  by (simp add: dedup_sound_def example_empty_def zero_metadata_def)

lemma big_insert:
  "fst (do_insert example_env big_content ''a'' (example_empty 1)) = ERR_NONE"
  by (simp add: do_insert_def example_empty_def example_env_def do_insert_loop.simps
      do_name_and_content_dedup_def dedup_loop.simps do_insert_append_def do_insert_finish_def
      get_resolution_def updateHeader_def updateMetadata_def fseek_end_def ftell_def fwrite_def
      fseek_set_def rewind_def Let_def zero_metadata_def big_content_def res_get_set
      RES_ORIG_def NON_EMPTY_def)


subsection \<open>C1: insert, then read the original\<close>

text \<open>
  C1. Take a layout with positive struct sizes, a handle whose array has \<^verbatim>\<open>max_files\<close>
  slots and whose file holds the whole table, is shorter than \<open>2 ^ 63\<close> bytes and is open
  for reading, a store in which every valid slot with the digest of \<open>C\<close> points at the
  bytes \<open>C\<close>, and a codec that refuses the empty buffer. If \<open>C\<close> is shorter than \<open>2 ^ 32\<close>
  bytes, the id has at most \<^verbatim>\<open>MAX_IMG_ID\<close> characters and \<^verbatim>\<open>do_insert\<close> of \<open>C\<close> under the
  id succeeds (so there was a free slot and no valid slot had the id), then \<^verbatim>\<open>do_read\<close>
  of that id at \<^verbatim>\<open>RES_ORIG\<close> on the handle it leaves succeeds, its buffer is \<open>C\<close> and its
  size is the length of \<open>C\<close>.
\<close>

theorem insert_then_read_original:
  assumes env: "env_ok E" and ok: "handle_ok E s" and ds: "dedup_sound E s C"
    and fits: "length (contents (filep s)) < 2 ^ 63"
    and mo: "mode (filep s) \<noteq> WB"
    and codec: "vips_jpegload_buffer E [] = None"
    and small: "length C < 2 ^ 32"
    and short: "length iid \<le> MAX_IMG_ID"
    and ins: "do_insert E C iid s = (ERR_NONE, s')"
  shows "\<exists>s''. do_read E iid RES_ORIG s' = (ERR_NONE, C, of_nat (length C), s'')
           \<and> unat (of_nat (length C) :: 32 word) = length C"
proof -
  from small have u: "unat (of_nat (length C) :: 32 word) = length C"
    by (simp add: unat_of_nat take_bit_nat_eq_self)
  from do_insert_semantics(15) [OF env ok ds fits ins refl short] codec have "C \<noteq> []" by auto
  with u have nz: "(of_nat (length C) :: 32 word) \<noteq> 0" by (metis length_0_conv unat_0)
  from read_after_insert [OF env ok ds fits mo ins refl short] u nz show ?thesis by simp
qed

theorem insert_then_read_original_witness:
  "fst (do_insert example_env [7, 1] ''a'' (example_empty 1)) = ERR_NONE
   \<and> (\<exists>s''. do_read example_env ''a'' RES_ORIG
               (snd (do_insert example_env [7, 1] ''a'' (example_empty 1)))
             = (ERR_NONE, [7, 1], 2, s''))"
proof -
  let ?r = "do_insert example_env [7, 1] ''a'' (example_empty 1)"
  have e: "fst ?r = ERR_NONE" by code_simp
  then have r: "?r = (ERR_NONE, snd ?r)" by (metis prod.collapse)
  have fi: "length (contents (filep (example_empty 1))) < 2 ^ 63"
    by (simp add: example_empty_def)
  have mo: "mode (filep (example_empty 1)) \<noteq> WB" by (simp add: example_empty_def)
  have co: "vips_jpegload_buffer example_env [] = None" by (simp add: example_env_def)
  have sh: "length ''a'' \<le> MAX_IMG_ID" by (simp add: MAX_IMG_ID_def)
  from insert_then_read_original [OF example_env_ok example_empty_ok example_empty_sound fi mo co _ sh r] e
  show ?thesis by simp
qed


text \<open>
  The bound on the length is needed: \<^verbatim>\<open>do_insert\<close> stores \<^verbatim>\<open>(uint32_t) image_size\<close>.
  The content of \<open>2 ^ 32 + 1\<close> bytes is inserted with success, its recorded size is 1, and
  \<^verbatim>\<open>do_read\<close> succeeds with a buffer of one byte.
\<close>

theorem insert_then_read_original_truncates:
  "length big_content = 2 ^ 32 + 1
   \<and> fst (do_insert example_env big_content ''a'' (example_empty 1)) = ERR_NONE
   \<and> (\<exists>s''. do_read example_env ''a'' RES_ORIG
               (snd (do_insert example_env big_content ''a'' (example_empty 1)))
             = (ERR_NONE, [255], 1, s''))"
proof -
  let ?r = "do_insert example_env big_content ''a'' (example_empty 1)"
  have r: "?r = (ERR_NONE, snd ?r)" using big_insert by (metis prod.collapse)
  have fi: "length (contents (filep (example_empty 1))) < 2 ^ 63"
    by (simp add: example_empty_def)
  have mo: "mode (filep (example_empty 1)) \<noteq> WB" by (simp add: example_empty_def)
  have z: "(of_nat (length big_content) :: 32 word) = 1"
    by (simp add: length_big_content)
  have sh: "length ''a'' \<le> MAX_IMG_ID" by (simp add: MAX_IMG_ID_def)
  from read_after_insert [OF example_env_ok example_empty_ok example_empty_sound fi mo r refl sh]
  have "\<exists>s''. do_read example_env ''a'' RES_ORIG (snd ?r) = (ERR_NONE, take 1 big_content, 1, s'')"
    by (simp add: z)
  then show ?thesis using big_insert length_big_content by (simp add: big_content_def)
qed

text \<open>
  So is the bound on the id: an id of 130 characters is inserted with success, the
  field keeps its first 128 characters, and \<^verbatim>\<open>do_read\<close> under the id does not find the
  slot.
\<close>

lemma long_id_is_not_found:
  "fst (do_insert example_env [7, 1] (replicate 130 CHR ''x'') (example_empty 1)) = ERR_NONE
   \<and> fst (do_read example_env (replicate 130 CHR ''x'') RES_ORIG
            (snd (do_insert example_env [7, 1] (replicate 130 CHR ''x'') (example_empty 1))))
       = ERR_FILE_NOT_FOUND"
  by code_simp

subsection \<open>Two inserts of the same content, and a delete\<close>










subsection \<open>C2: content dedup\<close>



end
